theory Spec2Isabelle
  imports Main
begin

section \<open>Data model\<close>

text \<open>
  Modelled from the spec: the message types \<open>Visit\<close> and \<open>Snarl\<close> and the enumeration
  \<open>SnarlType\<close> are declared outside \<open>snarls.cpp\<close>; the fields below are the ones the code
  reads and writes (\<open>node_id()\<close>, \<open>snarl()\<close>, \<open>backward()\<close>, \<open>type()\<close>, \<open>start()\<close>,
  \<open>end()\<close>, \<open>parent()\<close>, the three reachability flags).  An optional sub-message is an
  \<open>option\<close>: \<open>has_snarl()\<close> and \<open>has_parent()\<close> test for \<open>Some\<close>, and reading an unset
  sub-message gives the default message.  Node identifiers are 64-bit in the code; they are
  only compared and copied, never computed with, so they are integers here.  The selector
  for \<open>end()\<close> is written \<open>end'\<close>, the selector for a snarl's \<open>parent()\<close> is
  \<open>snarl_parent\<close> (the manager has an index called \<open>parent\<close>).
\<close>

datatype SnarlType = UNCLASSIFIED | ULTRABUBBLE | UNARY

datatype Visit = Visit (node_id: int) (snarl: "Snarl option") (backward: bool)
  and Snarl = Snarl (snarl_type: SnarlType) (start: Visit) (end': Visit)
                    (snarl_parent: "Snarl option")
                    (start_self_reachable: bool) (end_self_reachable: bool)
                    (start_end_reachable: bool)

definition default_Visit :: Visit where
  "default_Visit = Visit 0 None False"

definition default_Snarl :: Snarl where
  "default_Snarl = Snarl UNCLASSIFIED default_Visit default_Visit None False False False"

definition has_snarl :: "Visit \<Rightarrow> bool" where
  "has_snarl v = (snarl v \<noteq> None)"

definition snarl_of :: "Visit \<Rightarrow> Snarl" where
  "snarl_of v = (case snarl v of None \<Rightarrow> default_Snarl | Some s \<Rightarrow> s)"

definition has_parent :: "Snarl \<Rightarrow> bool" where
  "has_parent s = (snarl_parent s \<noteq> None)"

fun set_node_id :: "int \<Rightarrow> Visit \<Rightarrow> Visit" where
  "set_node_id i (Visit n s b) = Visit i s b"

fun set_backward :: "bool \<Rightarrow> Visit \<Rightarrow> Visit" where
  "set_backward b' (Visit n s b) = Visit n s b'"

fun set_start :: "Visit \<Rightarrow> Snarl \<Rightarrow> Snarl" where
  "set_start v (Snarl t s e p a b c) = Snarl t v e p a b c"

fun set_end :: "Visit \<Rightarrow> Snarl \<Rightarrow> Snarl" where
  "set_end v (Snarl t s e p a b c) = Snarl t s v p a b c"

text \<open>
  The ways an operation of the model can fail.  \<open>Misowned_snarl\<close> is the
  \<open>runtime_error\<close> of \<open>manage\<close>, \<open>Out_of_range\<close> the exception of \<open>at\<close> on a vector or
  a map, \<open>Assertion_failed\<close> a failed \<open>assert\<close>, \<open>No_such_node\<close> the backing graph's
  failure to find a node.  \<open>Invalid_pointer\<close> stands for dereferencing a pointer that does
  not point into the store, \<open>Empty_chain\<close> for \<open>front()\<close> or \<open>back()\<close> of an empty chain, and
  \<open>No_return_value\<close> for control reaching the closing brace of a function that has to
  return a value: the last three are undefined behaviour in the source.
\<close>

datatype error = Misowned_snarl | Out_of_range | Assertion_failed | No_such_node
  | Invalid_pointer | Empty_chain | No_return_value

section \<open>The snarl manager\<close>

type_synonym key_t = "(int \<times> bool) \<times> (int \<times> bool)"

text \<open>
  A \<open>const Snarl*\<close> into the store is the position of the record in \<open>snarls\<close>; the null
  pointer is \<open>None\<close>.  The four \<open>unordered_map\<close> members are maps.
\<close>

record SnarlManager =
  snarls :: "Snarl list"
  roots :: "nat list"
  children :: "key_t \<rightharpoonup> nat list"
  parent :: "key_t \<rightharpoonup> nat option"
  snarl_into :: "(int \<times> bool) \<rightharpoonup> nat"
  index_of :: "key_t \<rightharpoonup> nat"

definition key_form :: "Snarl \<Rightarrow> key_t" where
  "key_form s = ((node_id (start s), backward (start s)),
                 (node_id (end' s), backward (end' s)))"

text \<open>The body of the first loop of \<open>build_indexes\<close>, for position \<open>i\<close> of the store.\<close>

definition index_record :: "nat \<Rightarrow> SnarlManager \<Rightarrow> SnarlManager" where
  "index_record i m =
    (let s = snarls m ! i;
         m1 = m\<lparr>index_of := (index_of m)(key_form s \<mapsto> i)\<rparr>;
         m2 = (case snarl_parent s of
                 Some p \<Rightarrow>
                   (case children m1 (key_form p) of
                      None \<Rightarrow> m1\<lparr>children := (children m1)(key_form p \<mapsto> [i])\<rparr>
                    | Some cs \<Rightarrow> m1\<lparr>children := (children m1)(key_form p \<mapsto> cs @ [i])\<rparr>)
               | None \<Rightarrow>
                   m1\<lparr>roots := roots m1 @ [i],
                      parent := (parent m1)(key_form s \<mapsto> None)\<rparr>)
     in m2\<lparr>snarl_into := (snarl_into m2)
              ((node_id (start s), backward (start s)) \<mapsto> i,
               (node_id (end' s), \<not> backward (end' s)) \<mapsto> i)\<rparr>)"

text \<open>The body of the second loop of \<open>build_indexes\<close>, for position \<open>j\<close> of the store.\<close>

definition link_children :: "nat \<Rightarrow> SnarlManager \<Rightarrow> SnarlManager" where
  "link_children j m =
    (case children m (key_form (snarls m ! j)) of
       Some cs \<Rightarrow>
         fold (\<lambda>child m'. m'\<lparr>parent := (parent m')(key_form (snarls m' ! child) \<mapsto> Some j)\<rparr>) cs m
     | None \<Rightarrow> m\<lparr>children := (children m)(key_form (snarls m ! j) \<mapsto> [])\<rparr>)"

definition build_indexes :: "SnarlManager \<Rightarrow> SnarlManager" where
  "build_indexes m =
     fold link_children [0..<length (snarls m)]
       (fold index_record [0..<length (snarls m)] m)"

text \<open>The constructor: the records of the stream are appended to \<open>snarls\<close>, then indexed.\<close>

definition SnarlManager_init :: "Snarl list \<Rightarrow> SnarlManager" where
  "SnarlManager_init ss =
     build_indexes \<lparr>snarls = ss, roots = [], children = Map.empty, parent = Map.empty,
                    snarl_into = Map.empty, index_of = Map.empty\<rparr>"

definition deref :: "SnarlManager \<Rightarrow> nat \<Rightarrow> error + Snarl" where
  "deref m p = (if p < length (snarls m) then Inr (snarls m ! p) else Inl Invalid_pointer)"

definition children_of :: "SnarlManager \<Rightarrow> nat option \<Rightarrow> error + nat list" where
  "children_of m sn =
    (case sn of
       None \<Rightarrow> Inr (roots m)
     | Some p \<Rightarrow>
        (case deref m p of
           Inl e \<Rightarrow> Inl e
         | Inr s \<Rightarrow> (case children m (key_form s) of
                      None \<Rightarrow> Inl Out_of_range
                    | Some cs \<Rightarrow> Inr cs)))"

definition top_level_snarls :: "SnarlManager \<Rightarrow> nat list" where
  "top_level_snarls m = roots m"

definition manage :: "SnarlManager \<Rightarrow> Snarl \<Rightarrow> error + nat" where
  "manage m not_owned =
    (case index_of m (key_form not_owned) of
       None \<Rightarrow> Inl Misowned_snarl
     | Some i \<Rightarrow> if i < length (snarls m) then Inr i else Inl Out_of_range)"


text \<open>
  \<open>flip\<close>.  The pointer argument is a position of the store, so the alignment test of the
  source holds by construction; a position outside the store is \<open>Invalid_pointer\<close>.
  \<open>move_entry\<close> is the pair of statements \<open>index[key_form(snarl)] = index[old_key];
  index.erase(old_key);\<close>: \<open>operator[]\<close> reads the default value \<open>d\<close> for a missing
  key, and \<open>erase\<close> runs last, also when the new key is the old key.
\<close>

definition move_entry :: "'v \<Rightarrow> 'k \<Rightarrow> 'k \<Rightarrow> ('k \<rightharpoonup> 'v) \<Rightarrow> ('k \<rightharpoonup> 'v)" where
  "move_entry d old_key new_key mp =
     (mp(new_key \<mapsto> (case mp old_key of None \<Rightarrow> d | Some v \<Rightarrow> v)))(old_key := None)"

definition flip_boundaries :: "Snarl \<Rightarrow> Snarl" where
  "flip_boundaries to_flip =
    (let start_id = node_id (start to_flip);
         start_orientation = backward (start to_flip);
         s1 = set_start (set_node_id (node_id (end' to_flip)) (start to_flip)) to_flip;
         s2 = set_start (set_backward (\<not> backward (end' s1)) (start s1)) s1;
         s3 = set_end (set_node_id start_id (end' s2)) s2
     in set_end (set_backward (\<not> start_orientation) (end' s3)) s3)"

definition flip :: "nat \<Rightarrow> SnarlManager \<Rightarrow> error + SnarlManager" where
  "flip p m =
    (if \<not> p < length (snarls m) then Inl Invalid_pointer
     else
       let old_key = key_form (snarls m ! p);
           m1 = m\<lparr>snarls := (snarls m)[p := flip_boundaries (snarls m ! p)]\<rparr>;
           new_key = key_form (snarls m1 ! p)
       in Inr (m1\<lparr>parent := move_entry None old_key new_key (parent m1),
                   children := move_entry [] old_key new_key (children m1),
                   index_of := move_entry 0 old_key new_key (index_of m1)\<rparr>))"

definition into_which_snarl :: "SnarlManager \<Rightarrow> int \<Rightarrow> bool \<Rightarrow> nat option" where
  "into_which_snarl m i is_reverse = snarl_into m (i, is_reverse)"

text \<open>
  The two keys under which the first loop of \<open>build_indexes\<close> enters a record into
  \<open>snarl_into\<close>, and the set of keys of \<open>snarl_into\<close> that map to the record at
  position \<open>p\<close> (a notion of the statements below, not a function of the code).
\<close>

definition start_into :: "Snarl \<Rightarrow> int \<times> bool" where
  "start_into s = (node_id (start s), backward (start s))"

definition end_into :: "Snarl \<Rightarrow> int \<times> bool" where
  "end_into s = (node_id (end' s), \<not> backward (end' s))"

definition entries_into :: "SnarlManager \<Rightarrow> nat \<Rightarrow> (int \<times> bool) set" where
  "entries_into m p = {k. snarl_into m k = Some p}"

text \<open>Two calls of \<open>flip\<close> on the same pointer, the second on the state the first leaves.\<close>

definition flip_twice :: "nat \<Rightarrow> SnarlManager \<Rightarrow> error + SnarlManager" where
  "flip_twice p m = (case flip p m of Inl e \<Rightarrow> Inl e | Inr m' \<Rightarrow> flip p m')"



section \<open>Boundary algebra and chains\<close>

text \<open>
  Modelled from the spec: \<open>reverse\<close> and \<open>transfer_boundary_info\<close> are defined outside
  \<open>snarls.cpp\<close>.  \<open>reverse\<close> negates the \<open>backward\<close> flag of a visit, which for a snarl
  visit swaps the roles of the two boundaries; \<open>transfer_boundary_info\<close> copies the start
  and the end of a snarl record into another record.
\<close>

definition reverse :: "Visit \<Rightarrow> Visit" where
  "reverse v = set_backward (\<not> backward v) v"

definition transfer_boundary_info :: "Snarl \<Rightarrow> Snarl \<Rightarrow> Snarl" where
  "transfer_boundary_info from_snarl to_snarl =
     set_end (end' from_snarl) (set_start (start from_snarl) to_snarl)"

text \<open>\<open>f\<close> applied to \<open>*v.mutable_snarl()\<close>: the sub-message is created when it is unset.\<close>

definition on_mutable_snarl :: "(Snarl \<Rightarrow> Snarl) \<Rightarrow> Visit \<Rightarrow> Visit" where
  "on_mutable_snarl f v = Visit (node_id v) (Some (f (snarl_of v))) (backward v)"

text \<open>
  A \<open>Chain\<close> is a vector of pointers to snarl records.  The four helpers below only read
  the records behind the pointers, so they take the chain as the list of these records.
  \<open>front()\<close> of an empty chain is \<open>Empty_chain\<close>.
\<close>

type_synonym Chain = "Snarl list"

definition start_backward :: "Chain \<Rightarrow> bool" where
  "start_backward chain =
     (length chain > 1 \<and>
      (node_id (start (hd chain)) = node_id (start (chain ! 1)) \<or>
       node_id (start (hd chain)) = node_id (end' (chain ! 1))))"

definition end_backward :: "Chain \<Rightarrow> bool" where
  "end_backward chain =
     (length chain > 1 \<and>
      (node_id (end' (last chain)) = node_id (start (chain ! (length chain - 2))) \<or>
       node_id (end' (last chain)) = node_id (end' (chain ! (length chain - 2)))))"

definition get_start :: "Chain \<Rightarrow> error + Visit" where
  "get_start chain =
     (if chain = [] then Inl Empty_chain
      else Inr (if start_backward chain then reverse (end' (hd chain)) else start (hd chain)))"

definition get_end :: "Chain \<Rightarrow> error + Visit" where
  "get_end chain =
     (if chain = [] then Inl Empty_chain
      else Inr (if end_backward chain then reverse (start (hd chain)) else end' (hd chain)))"

definition snarl_sharing_start :: "SnarlManager \<Rightarrow> nat \<Rightarrow> error + nat option" where
  "snarl_sharing_start m here =
    (case deref m here of
       Inl e \<Rightarrow> Inl e
     | Inr h \<Rightarrow>
        (let next = into_which_snarl m (node_id (start h)) (\<not> backward (start h))
         in Inr (if next = Some here then None else next)))"

definition snarl_sharing_end :: "SnarlManager \<Rightarrow> nat \<Rightarrow> error + nat option" where
  "snarl_sharing_end m here =
    (case deref m here of
       Inl e \<Rightarrow> Inl e
     | Inr h \<Rightarrow>
        (let next = into_which_snarl m (node_id (end' h)) (backward (end' h))
         in Inr (if next = Some here then None else next)))"

text \<open>
  \<open>next_in_chain\<close>.  When there is a next snarl the source fills in \<open>to_return\<close> and then
  reaches the closing brace of the function: no \<open>return\<close> statement follows the two
  \<open>set_backward\<close> calls.  The model computes the same visit and ends in
  \<open>No_return_value\<close>.
\<close>

definition next_in_chain :: "SnarlManager \<Rightarrow> Visit \<Rightarrow> error + Visit" where
  "next_in_chain m here =
    (if node_id here \<noteq> 0 then Inl Assertion_failed
     else case manage m (snarl_of here) of
       Inl e \<Rightarrow> Inl e
     | Inr here_snarl \<Rightarrow>
        (case (if backward here then snarl_sharing_start m here_snarl
               else snarl_sharing_end m here_snarl) of
           Inl e \<Rightarrow> Inl e
         | Inr None \<Rightarrow> Inr default_Visit
         | Inr (Some n) \<Rightarrow>
            (case deref m n of
               Inl e \<Rightarrow> Inl e
             | Inr next \<Rightarrow>
                (let to_return = on_mutable_snarl (transfer_boundary_info next) default_Visit;
                     to_return' =
                       (if backward here
                        then set_backward
                               (node_id (end' next) = node_id (start (snarls m ! here_snarl)))
                               to_return
                        else set_backward
                               (node_id (start next) \<noteq> node_id (end' (snarls m ! here_snarl)))
                               to_return)
                 in Inl No_return_value))))"

definition prev_in_chain :: "SnarlManager \<Rightarrow> Visit \<Rightarrow> error + Visit" where
  "prev_in_chain m here =
    (case next_in_chain m (reverse here) of Inl e \<Rightarrow> Inl e | Inr v \<Rightarrow> Inr (reverse v))"

text \<open>
  The two inner loops of \<open>chains_of\<close>.  The argument \<open>r\<close> is the outcome of the walk's last
  step; nothing in the source bounds the number of steps, so a walk that never ends is
  \<open>None\<close>.  \<open>push_front\<close> is \<open>#\<close>, \<open>push_back\<close> appends.
\<close>

partial_function (option) walk_left ::
  "SnarlManager \<Rightarrow> error + Visit \<Rightarrow> nat list \<Rightarrow> nat set \<Rightarrow> (error + nat list \<times> nat set) option"
where
  "walk_left m r chain seen =
    (case r of
       Inl e \<Rightarrow> Some (Inl e)
     | Inr walk \<Rightarrow>
        if has_snarl walk then
          (case manage m (snarl_of walk) of
             Inl e \<Rightarrow> Some (Inl e)
           | Inr p \<Rightarrow> walk_left m (prev_in_chain m walk) (p # chain) (insert p seen))
        else Some (Inr (chain, seen)))"

partial_function (option) walk_right ::
  "SnarlManager \<Rightarrow> error + Visit \<Rightarrow> nat list \<Rightarrow> nat set \<Rightarrow> (error + nat list \<times> nat set) option"
where
  "walk_right m r chain seen =
    (case r of
       Inl e \<Rightarrow> Some (Inl e)
     | Inr walk \<Rightarrow>
        if has_snarl walk then
          (case manage m (snarl_of walk) of
             Inl e \<Rightarrow> Some (Inl e)
           | Inr p \<Rightarrow> walk_right m (next_in_chain m walk) (chain @ [p]) (insert p seen))
        else Some (Inr (chain, seen)))"

text \<open>The outer loop of \<open>chains_of\<close> over the children, with \<open>seen\<close> and \<open>to_return\<close>.\<close>

fun chains_loop ::
  "SnarlManager \<Rightarrow> nat list \<Rightarrow> nat set \<Rightarrow> nat list list \<Rightarrow> (error + nat list list) option"
where
  "chains_loop m [] seen to_return = Some (Inr to_return)"
| "chains_loop m (child # rest) seen to_return =
    (if child \<in> seen then chains_loop m rest seen to_return
     else case deref m child of
       Inl e \<Rightarrow> Some (Inl e)
     | Inr c \<Rightarrow>
        (let here = on_mutable_snarl (transfer_boundary_info c) default_Visit
         in case walk_left m (prev_in_chain m here) [child] (insert child seen) of
              None \<Rightarrow> None
            | Some (Inl e) \<Rightarrow> Some (Inl e)
            | Some (Inr (chain, seen1)) \<Rightarrow>
               (case walk_right m (next_in_chain m here) chain seen1 of
                  None \<Rightarrow> None
                | Some (Inl e) \<Rightarrow> Some (Inl e)
                | Some (Inr (chain', seen2)) \<Rightarrow>
                    chains_loop m rest seen2 (to_return @ [chain']))))"

definition chains_of :: "SnarlManager \<Rightarrow> nat option \<Rightarrow> (error + nat list list) option" where
  "chains_of m sn =
    (case children_of m sn of
       Inl e \<Rightarrow> Some (Inl e)
     | Inr cs \<Rightarrow> chains_loop m cs {} [])"


text \<open>\<open>prev_in_chain(next_in_chain(v))\<close>: the second call takes the visit the first returns.\<close>

definition next_then_prev :: "SnarlManager \<Rightarrow> Visit \<Rightarrow> error + Visit" where
  "next_then_prev m v =
     (case next_in_chain m v of Inl e \<Rightarrow> Inl e | Inr w \<Rightarrow> prev_in_chain m w)"

declare walk_left.simps [code]
declare walk_right.simps [code]

section \<open>Example stores\<close>

text \<open>
  A top-level snarl from node 0 to node 4 with two children that share node 2
  (positions 1 and 2 of the store), a second record with the boundaries of the first child,
  and a unary snarl on node 1.
\<close>

definition example_parent :: Snarl where
  "example_parent = Snarl ULTRABUBBLE (Visit 0 None False) (Visit 4 None False) None False False True"

definition example_A :: Snarl where
  "example_A = Snarl ULTRABUBBLE (Visit 1 None False) (Visit 2 None False)
                 (Some (transfer_boundary_info example_parent default_Snarl)) False False True"

definition example_B :: Snarl where
  "example_B = Snarl ULTRABUBBLE (Visit 2 None False) (Visit 3 None False)
                 (Some (transfer_boundary_info example_parent default_Snarl)) False False True"


definition example_unary :: Snarl where
  "example_unary = Snarl UNARY (Visit 1 None False) (Visit 1 None True) None False False False"

definition example_store :: "Snarl list" where
  "example_store = [example_parent, example_A, example_B]"

lemmas example_defs = example_store_def example_parent_def example_A_def example_B_def
  example_unary_def key_form_def transfer_boundary_info_def default_Snarl_def default_Visit_def

section \<open>The indexes after \<open>build_indexes\<close>\<close>


lemma snarls_index_record [simp]: "snarls (index_record i m) = snarls m"
  by (simp add: index_record_def Let_def split: option.splits)

lemma snarls_fold_index_record [simp]: "snarls (fold index_record xs m) = snarls m"
  by (induction xs arbitrary: m) simp_all

lemma snarls_fold_set_parent [simp]:
  "snarls (fold (\<lambda>child m'. m'\<lparr>parent := (parent m')(key_form (snarls m' ! child) \<mapsto> v)\<rparr>) cs m) = snarls m"
  by (induction cs arbitrary: m) simp_all

lemma snarls_link_children [simp]: "snarls (link_children j m) = snarls m"
  by (simp add: link_children_def split: option.splits)

lemma snarls_fold_link_children [simp]: "snarls (fold link_children xs m) = snarls m"
  by (induction xs arbitrary: m) simp_all

lemma snarls_SnarlManager_init [simp]: "snarls (SnarlManager_init ss) = ss"
  by (simp add: SnarlManager_init_def build_indexes_def)

lemma roots_index_record:
  "roots (index_record i m) =
     (if snarl_parent (snarls m ! i) = None then roots m @ [i] else roots m)"
  by (simp add: index_record_def Let_def split: option.splits)

lemma roots_fold_index_record:
  "roots (fold index_record xs m) =
     roots m @ filter (\<lambda>i. snarl_parent (snarls m ! i) = None) xs"
  by (induction xs arbitrary: m) (simp_all add: roots_index_record)

lemma roots_fold_set_parent [simp]:
  "roots (fold (\<lambda>child m'. m'\<lparr>parent := (parent m')(key_form (snarls m' ! child) \<mapsto> v)\<rparr>) cs m) = roots m"
  by (induction cs arbitrary: m) simp_all

lemma roots_link_children [simp]: "roots (link_children j m) = roots m"
  by (simp add: link_children_def split: option.splits)

lemma roots_fold_link_children [simp]: "roots (fold link_children xs m) = roots m"
  by (induction xs arbitrary: m) simp_all

lemma roots_SnarlManager_init:
  "roots (SnarlManager_init ss) = filter (\<lambda>i. snarl_parent (ss ! i) = None) [0..<length ss]"
  by (simp add: SnarlManager_init_def build_indexes_def roots_fold_index_record)


lemma find_append_case:
  "find P (xs @ ys) = (case find P xs of None \<Rightarrow> find P ys | Some x \<Rightarrow> Some x)"
  by (induction xs) simp_all


lemma index_of_fold_set_parent [simp]:
  "index_of (fold (\<lambda>child m'. m'\<lparr>parent := (parent m')(key_form (snarls m' ! child) \<mapsto> v)\<rparr>) cs m) = index_of m"
  by (induction cs arbitrary: m) simp_all

lemma index_of_link_children [simp]: "index_of (link_children j m) = index_of m"
  by (simp add: link_children_def split: option.splits)

lemma index_of_fold_link_children [simp]: "index_of (fold link_children xs m) = index_of m"
  by (induction xs arbitrary: m) simp_all


lemma find_rev_upt_last:
  assumes "i < n" and "P i"
  shows "\<exists>j. find P (rev [0..<n]) = Some j \<and> i \<le> j \<and> j < n \<and> P j
             \<and> (\<forall>j'. j' < n \<longrightarrow> P j' \<longrightarrow> j' \<le> j)"
  using assms
proof (induction n)
  case 0
  then show ?case by simp
next
  case (Suc n)
  show ?case
  proof (cases "P n")
    case True
    then show ?thesis using Suc.prems by (auto simp: less_Suc_eq_le)
  next
    case False
    with Suc.prems have "i < n" by (metis less_Suc_eq)
    from Suc.IH[OF this Suc.prems(2)] False show ?thesis
      by (auto simp: less_Suc_eq)
  qed
qed

section \<open>Lookup: \<open>children_of\<close>\<close>

text \<open>
  Claim C10.  \<open>children_of\<close> called with the null pointer does not fail: it returns the
  list \<open>roots\<close>, which is also what \<open>top_level_snarls\<close> returns; after the constructor
  this list holds, in store order, the positions of the records that have no parent.
\<close>

theorem children_of_null_is_top_level:
  "children_of m None = Inr (top_level_snarls m) \<and>
   top_level_snarls (SnarlManager_init ss) =
     filter (\<lambda>i. \<not> has_parent (ss ! i)) [0..<length ss]"
  by (simp add: children_of_def top_level_snarls_def roots_SnarlManager_init has_parent_def)

theorem children_of_null_is_top_level_witness:
  "children_of (SnarlManager_init example_store) None = Inr [0]"
  using children_of_null_is_top_level [of "SnarlManager_init example_store" example_store]
  by (simp add: example_defs upt_rec has_parent_def)

section \<open>The boundary index and \<open>flip\<close>\<close>

lemma snarl_into_index_record:
  "snarl_into (index_record i m) =
     (snarl_into m)(start_into (snarls m ! i) \<mapsto> i, end_into (snarls m ! i) \<mapsto> i)"
  by (simp add: index_record_def Let_def start_into_def end_into_def split: option.splits)

lemma snarl_into_fold_index_record:
  "snarl_into (fold index_record xs m) k =
     (case find (\<lambda>i. start_into (snarls m ! i) = k \<or> end_into (snarls m ! i) = k) (rev xs) of
        None \<Rightarrow> snarl_into m k
      | Some i \<Rightarrow> Some i)"
proof (induction xs arbitrary: m)
  case Nil
  show ?case by simp
next
  case (Cons x xs)
  show ?case
    by (simp add: Cons.IH snarl_into_index_record find_append_case split: option.splits)
qed

lemma snarl_into_fold_set_parent [simp]:
  "snarl_into (fold (\<lambda>child m'. m'\<lparr>parent := (parent m')(key_form (snarls m' ! child) \<mapsto> v)\<rparr>) cs m) = snarl_into m"
  by (induction cs arbitrary: m) simp_all

lemma snarl_into_link_children [simp]: "snarl_into (link_children j m) = snarl_into m"
  by (simp add: link_children_def split: option.splits)

lemma snarl_into_fold_link_children [simp]:
  "snarl_into (fold link_children xs m) = snarl_into m"
  by (induction xs arbitrary: m) simp_all

lemma snarl_into_SnarlManager_init:
  "snarl_into (SnarlManager_init ss) k =
     find (\<lambda>i. start_into (ss ! i) = k \<or> end_into (ss ! i) = k) (rev [0..<length ss])"
  by (simp add: SnarlManager_init_def build_indexes_def snarl_into_fold_index_record
           split: option.splits)

lemma find_Some_holds: "find P xs = Some x \<Longrightarrow> P x \<and> x \<in> set xs"
  by (induction xs) (auto split: if_splits)

lemma entries_into_subset:
  "entries_into (SnarlManager_init ss) i \<subseteq> {start_into (ss ! i), end_into (ss ! i)}"
  by (auto simp: entries_into_def snarl_into_SnarlManager_init dest!: find_Some_holds)

lemma snarl_into_at_boundary:
  assumes i: "i < length ss"
    and k: "k = start_into (ss ! i) \<or> k = end_into (ss ! i)"
    and later: "\<forall>j. i < j \<and> j < length ss \<longrightarrow> start_into (ss ! j) \<noteq> k \<and> end_into (ss ! j) \<noteq> k"
  shows "snarl_into (SnarlManager_init ss) k = Some i"
proof -
  let ?P = "\<lambda>j. start_into (ss ! j) = k \<or> end_into (ss ! j) = k"
  from k have "?P i" by auto
  from find_rev_upt_last[of i "length ss" ?P, OF i this]
  obtain j where j: "find ?P (rev [0..<length ss]) = Some j" "i \<le> j" "j < length ss" "?P j"
    by blast
  have "j = i"
  proof (rule ccontr)
    assume "j \<noteq> i"
    with j(2) have "i < j" by simp
    with later j(3,4) show False by blast
  qed
  with j(1) show ?thesis by (simp add: snarl_into_SnarlManager_init)
qed

lemma flip_boundaries_into [simp]:
  "start_into (flip_boundaries s) = end_into s" "end_into (flip_boundaries s) = start_into s"
  by (cases s; cases "start s"; cases "end' s";
      simp add: flip_boundaries_def start_into_def end_into_def Let_def)+

lemma move_entry_other:
  "k \<noteq> old_key \<Longrightarrow> k \<noteq> new_key \<Longrightarrow> move_entry d old_key new_key mp k = mp k"
  by (simp add: move_entry_def)

lemma move_entry_new:
  "new_key \<noteq> old_key \<Longrightarrow>
   move_entry d old_key new_key mp new_key = Some (case mp old_key of None \<Rightarrow> d | Some v \<Rightarrow> v)"
  by (simp add: move_entry_def)

lemma move_entry_old: "move_entry d old_key new_key mp old_key = None"
  by (simp add: move_entry_def)

lemma flip_rekeys:
  assumes "p < length (snarls m)"
  shows "\<exists>m'. flip p m = Inr m' \<and>
           snarl_into m' = snarl_into m \<and> roots m' = roots m \<and>
           snarls m' = (snarls m)[p := flip_boundaries (snarls m ! p)] \<and>
           parent m' = move_entry None (key_form (snarls m ! p))
                         (key_form (flip_boundaries (snarls m ! p))) (parent m) \<and>
           children m' = move_entry [] (key_form (snarls m ! p))
                         (key_form (flip_boundaries (snarls m ! p))) (children m) \<and>
           index_of m' = move_entry 0 (key_form (snarls m ! p))
                         (key_form (flip_boundaries (snarls m ! p))) (index_of m)"
  using assms by (simp add: flip_def Let_def)

text \<open>
  Claim C4, as the claim states it, fails on a unary snarl: its start and its end are the
  same node side read inward, the two keys coincide, and the index holds one entry for
  the snarl, not two.
\<close>

theorem unary_snarl_has_one_entry:
  "card (entries_into (SnarlManager_init [example_unary]) 0) = 1"
proof -
  have "entries_into (SnarlManager_init [example_unary]) 0 = {(1, False)}"
    by (auto simp: entries_into_def snarl_into_SnarlManager_init start_into_def end_into_def
          example_unary_def split: if_splits)
  then show ?thesis by simp
qed

text \<open>
  Claim C4, amended.  After the constructor, every entry of \<open>snarl_into\<close> that maps to the
  record at position \<open>i\<close> lies at \<open>(start.id, start.backward)\<close> or at
  \<open>(end.id, \<not> end.backward)\<close>; when these two keys differ and no later record of the store
  enters one of them, they are exactly the entries that map to the record, two in number.
  A call of \<open>flip\<close> on the record succeeds and leaves \<open>snarl_into\<close> and \<open>roots\<close> as
  they were; it replaces the record by the one with swapped and negated boundaries, whose
  two \<open>snarl_into\<close> keys are the old ones in the other order; entries of \<open>parent\<close>,
  \<open>children\<close> and \<open>index_of\<close> at keys other than the old and the new key stay; and when
  the new key differs from the old one, the entry at the old key is gone and the new key
  holds what the old key held (the default value of \<open>operator[]\<close> when it held nothing).
\<close>

theorem snarl_into_entries_and_flip:
  assumes i: "i < length ss"
  shows
   "entries_into (SnarlManager_init ss) i \<subseteq> {start_into (ss ! i), end_into (ss ! i)} \<and>
    (start_into (ss ! i) \<noteq> end_into (ss ! i) \<and>
     (\<forall>j. i < j \<and> j < length ss \<longrightarrow>
        start_into (ss ! j) \<notin> {start_into (ss ! i), end_into (ss ! i)} \<and>
        end_into (ss ! j) \<notin> {start_into (ss ! i), end_into (ss ! i)})
     \<longrightarrow> entries_into (SnarlManager_init ss) i = {start_into (ss ! i), end_into (ss ! i)} \<and>
         card (entries_into (SnarlManager_init ss) i) = 2) \<and>
    (\<exists>m'. flip i (SnarlManager_init ss) = Inr m' \<and>
       snarl_into m' = snarl_into (SnarlManager_init ss) \<and>
       roots m' = roots (SnarlManager_init ss) \<and>
       snarls m' = ss[i := flip_boundaries (ss ! i)] \<and>
       start_into (snarls m' ! i) = end_into (ss ! i) \<and>
       end_into (snarls m' ! i) = start_into (ss ! i) \<and>
       (\<forall>k. k \<noteq> key_form (ss ! i) \<and> k \<noteq> key_form (snarls m' ! i) \<longrightarrow>
          parent m' k = parent (SnarlManager_init ss) k \<and>
          children m' k = children (SnarlManager_init ss) k \<and>
          index_of m' k = index_of (SnarlManager_init ss) k) \<and>
       (key_form (snarls m' ! i) \<noteq> key_form (ss ! i) \<longrightarrow>
          parent m' (key_form (ss ! i)) = None \<and>
          children m' (key_form (ss ! i)) = None \<and>
          index_of m' (key_form (ss ! i)) = None \<and>
          parent m' (key_form (snarls m' ! i)) =
            Some (case parent (SnarlManager_init ss) (key_form (ss ! i)) of
                    None \<Rightarrow> None | Some v \<Rightarrow> v) \<and>
          children m' (key_form (snarls m' ! i)) =
            Some (case children (SnarlManager_init ss) (key_form (ss ! i)) of
                    None \<Rightarrow> [] | Some v \<Rightarrow> v) \<and>
          index_of m' (key_form (snarls m' ! i)) =
            Some (case index_of (SnarlManager_init ss) (key_form (ss ! i)) of
                    None \<Rightarrow> 0 | Some v \<Rightarrow> v)))"
proof (intro conjI)
  show "entries_into (SnarlManager_init ss) i \<subseteq> {start_into (ss ! i), end_into (ss ! i)}"
    by (rule entries_into_subset)
next
  show "start_into (ss ! i) \<noteq> end_into (ss ! i) \<and>
     (\<forall>j. i < j \<and> j < length ss \<longrightarrow>
        start_into (ss ! j) \<notin> {start_into (ss ! i), end_into (ss ! i)} \<and>
        end_into (ss ! j) \<notin> {start_into (ss ! i), end_into (ss ! i)})
     \<longrightarrow> entries_into (SnarlManager_init ss) i = {start_into (ss ! i), end_into (ss ! i)} \<and>
         card (entries_into (SnarlManager_init ss) i) = 2"
  proof
    assume h: "start_into (ss ! i) \<noteq> end_into (ss ! i) \<and>
     (\<forall>j. i < j \<and> j < length ss \<longrightarrow>
        start_into (ss ! j) \<notin> {start_into (ss ! i), end_into (ss ! i)} \<and>
        end_into (ss ! j) \<notin> {start_into (ss ! i), end_into (ss ! i)})"
    have s: "snarl_into (SnarlManager_init ss) (start_into (ss ! i)) = Some i"
      by (rule snarl_into_at_boundary[OF i]) (use h in auto)
    have e: "snarl_into (SnarlManager_init ss) (end_into (ss ! i)) = Some i"
      by (rule snarl_into_at_boundary[OF i]) (use h in auto)
    have eq: "entries_into (SnarlManager_init ss) i = {start_into (ss ! i), end_into (ss ! i)}"
      using entries_into_subset[of ss i] s e by (auto simp: entries_into_def)
    moreover have "card {start_into (ss ! i), end_into (ss ! i)} = 2" using h by simp
    ultimately show "entries_into (SnarlManager_init ss) i = {start_into (ss ! i), end_into (ss ! i)} \<and>
         card (entries_into (SnarlManager_init ss) i) = 2" by simp
  qed
next
  have p: "i < length (snarls (SnarlManager_init ss))" using i by simp
  from flip_rekeys[OF p] obtain m' where m': "flip i (SnarlManager_init ss) = Inr m'"
    "snarl_into m' = snarl_into (SnarlManager_init ss)" "roots m' = roots (SnarlManager_init ss)"
    "snarls m' = ss[i := flip_boundaries (ss ! i)]"
    "parent m' = move_entry None (key_form (ss ! i))
                         (key_form (flip_boundaries (ss ! i))) (parent (SnarlManager_init ss))"
    "children m' = move_entry [] (key_form (ss ! i))
                         (key_form (flip_boundaries (ss ! i))) (children (SnarlManager_init ss))"
    "index_of m' = move_entry 0 (key_form (ss ! i))
                         (key_form (flip_boundaries (ss ! i))) (index_of (SnarlManager_init ss))"
    by auto
  have s: "snarls m' ! i = flip_boundaries (ss ! i)" using i m'(4) by simp
  show "\<exists>m'. flip i (SnarlManager_init ss) = Inr m' \<and>
       snarl_into m' = snarl_into (SnarlManager_init ss) \<and>
       roots m' = roots (SnarlManager_init ss) \<and>
       snarls m' = ss[i := flip_boundaries (ss ! i)] \<and>
       start_into (snarls m' ! i) = end_into (ss ! i) \<and>
       end_into (snarls m' ! i) = start_into (ss ! i) \<and>
       (\<forall>k. k \<noteq> key_form (ss ! i) \<and> k \<noteq> key_form (snarls m' ! i) \<longrightarrow>
          parent m' k = parent (SnarlManager_init ss) k \<and>
          children m' k = children (SnarlManager_init ss) k \<and>
          index_of m' k = index_of (SnarlManager_init ss) k) \<and>
       (key_form (snarls m' ! i) \<noteq> key_form (ss ! i) \<longrightarrow>
          parent m' (key_form (ss ! i)) = None \<and>
          children m' (key_form (ss ! i)) = None \<and>
          index_of m' (key_form (ss ! i)) = None \<and>
          parent m' (key_form (snarls m' ! i)) =
            Some (case parent (SnarlManager_init ss) (key_form (ss ! i)) of
                    None \<Rightarrow> None | Some v \<Rightarrow> v) \<and>
          children m' (key_form (snarls m' ! i)) =
            Some (case children (SnarlManager_init ss) (key_form (ss ! i)) of
                    None \<Rightarrow> [] | Some v \<Rightarrow> v) \<and>
          index_of m' (key_form (snarls m' ! i)) =
            Some (case index_of (SnarlManager_init ss) (key_form (ss ! i)) of
                    None \<Rightarrow> 0 | Some v \<Rightarrow> v))"
  proof (intro exI[of _ m'] conjI allI impI)
    show "flip i (SnarlManager_init ss) = Inr m'" by (rule m'(1))
    show "snarl_into m' = snarl_into (SnarlManager_init ss)" by (rule m'(2))
    show "roots m' = roots (SnarlManager_init ss)" by (rule m'(3))
    show "snarls m' = ss[i := flip_boundaries (ss ! i)]" by (rule m'(4))
    show "start_into (snarls m' ! i) = end_into (ss ! i)" by (simp add: s)
    show "end_into (snarls m' ! i) = start_into (ss ! i)" by (simp add: s)
  next
    fix k assume "k \<noteq> key_form (ss ! i) \<and> k \<noteq> key_form (snarls m' ! i)"
    then have k: "k \<noteq> key_form (ss ! i)" "k \<noteq> key_form (flip_boundaries (ss ! i))"
      by (simp_all add: s)
    show "parent m' k = parent (SnarlManager_init ss) k"
      by (simp add: m'(5) move_entry_other[OF k])
    show "children m' k = children (SnarlManager_init ss) k"
      by (simp add: m'(6) move_entry_other[OF k])
    show "index_of m' k = index_of (SnarlManager_init ss) k"
      by (simp add: m'(7) move_entry_other[OF k])
  next
    assume "key_form (snarls m' ! i) \<noteq> key_form (ss ! i)"
    then have ne: "key_form (flip_boundaries (ss ! i)) \<noteq> key_form (ss ! i)"
      by (simp add: s)
    show "parent m' (key_form (ss ! i)) = None" by (simp add: m'(5) move_entry_old)
    show "children m' (key_form (ss ! i)) = None" by (simp add: m'(6) move_entry_old)
    show "index_of m' (key_form (ss ! i)) = None" by (simp add: m'(7) move_entry_old)
    show "parent m' (key_form (snarls m' ! i)) =
            Some (case parent (SnarlManager_init ss) (key_form (ss ! i)) of
                    None \<Rightarrow> None | Some v \<Rightarrow> v)"
      by (simp only: s m'(5) move_entry_new[OF ne])
    show "children m' (key_form (snarls m' ! i)) =
            Some (case children (SnarlManager_init ss) (key_form (ss ! i)) of
                    None \<Rightarrow> [] | Some v \<Rightarrow> v)"
      by (simp only: s m'(6) move_entry_new[OF ne])
    show "index_of m' (key_form (snarls m' ! i)) =
            Some (case index_of (SnarlManager_init ss) (key_form (ss ! i)) of
                    None \<Rightarrow> 0 | Some v \<Rightarrow> v)"
      by (simp only: s m'(7) move_entry_new[OF ne])
  qed
qed

theorem snarl_into_entries_and_flip_witness:
  "entries_into (SnarlManager_init example_store) 1 = {(1, False), (2, True)} \<and>
   card (entries_into (SnarlManager_init example_store) 1) = 2 \<and>
   (\<exists>m'. flip 1 (SnarlManager_init example_store) = Inr m' \<and>
      snarl_into m' = snarl_into (SnarlManager_init example_store) \<and>
      index_of m' ((1, False), (2, False)) = None)"
proof -
  have len: "(1::nat) < length example_store" by (simp add: example_store_def)
  have keys: "start_into (example_store ! 1) = (1, False)"
    "end_into (example_store ! 1) = (2, True)"
    "key_form (example_store ! 1) = ((1, False), (2, False))"
    "key_form (flip_boundaries (example_store ! 1)) = ((2, True), (1, True))"
    by (simp_all add: example_defs start_into_def end_into_def flip_boundaries_def Let_def)
  have later: "\<forall>j. 1 < j \<and> j < length example_store \<longrightarrow>
        start_into (example_store ! j) \<notin> {(1, False), (2, True)} \<and>
        end_into (example_store ! j) \<notin> {(1, False), (2, True)}"
  proof (intro allI impI)
    fix j :: nat assume "1 < j \<and> j < length example_store"
    then have "j = 2" by (simp add: example_store_def)
    then show "start_into (example_store ! j) \<notin> {(1, False), (2, True)} \<and>
        end_into (example_store ! j) \<notin> {(1, False), (2, True)}"
      by (simp add: example_defs start_into_def end_into_def)
  qed
  note t = snarl_into_entries_and_flip[OF len, unfolded keys]
  from t later have a: "entries_into (SnarlManager_init example_store) 1 = {(1, False), (2, True)}"
    "card (entries_into (SnarlManager_init example_store) 1) = 2"
    by simp_all
  from t obtain m' where m': "flip 1 (SnarlManager_init example_store) = Inr m'"
    "snarl_into m' = snarl_into (SnarlManager_init example_store)"
    "snarls m' = example_store[1 := flip_boundaries (example_store ! 1)]"
    "key_form (snarls m' ! 1) \<noteq> ((1, False), (2, False)) \<longrightarrow>
       index_of m' ((1, False), (2, False)) = None"
    by blast
  have "snarls m' ! 1 = flip_boundaries (example_store ! 1)"
    using len by (simp add: m'(3))
  with m'(4) keys(4) have "index_of m' ((1, False), (2, False)) = None" by simp
  with a m'(1,2) show ?thesis by blast
qed

text \<open>
  Claim C3 (the code departs from it).  On a unary snarl the flipped record has the key it
  had before, so \<open>erase(old_key)\<close> removes the entry that the line before has just
  written: after the constructor the unary snarl has its three entries, after two calls of
  \<open>flip\<close> the record is as before but its \<open>parent\<close>, \<open>children\<close> and \<open>index_of\<close>
  entries are gone, and \<open>manage\<close> no longer finds it.
\<close>

theorem flip_twice_erases_unary_entries:
  "index_of (SnarlManager_init [example_unary]) (key_form example_unary) = Some 0 \<and>
   parent (SnarlManager_init [example_unary]) (key_form example_unary) = Some None \<and>
   children (SnarlManager_init [example_unary]) (key_form example_unary) = Some [] \<and>
   (case flip_twice 0 (SnarlManager_init [example_unary]) of
      Inl e \<Rightarrow> False
    | Inr m' \<Rightarrow> snarls m' = [example_unary] \<and>
               index_of m' (key_form example_unary) = None \<and>
               parent m' (key_form example_unary) = None \<and>
               children m' (key_form example_unary) = None \<and>
               manage m' example_unary = Inl Misowned_snarl)"
  by code_simp

text \<open>
  Where the flipped record has a new key and the three entries are present, two calls of
  \<open>flip\<close> do restore the record and its entries.
\<close>

lemma flip_boundaries_twice [simp]: "flip_boundaries (flip_boundaries s) = s"
  by (cases s; cases "start s"; cases "end' s"; simp add: flip_boundaries_def Let_def)

lemma flip_twice_restores:
  assumes p: "p < length (snarls m)"
    and ne: "key_form (flip_boundaries (snarls m ! p)) \<noteq> key_form (snarls m ! p)"
    and present: "parent m (key_form (snarls m ! p)) \<noteq> None"
      "children m (key_form (snarls m ! p)) \<noteq> None"
      "index_of m (key_form (snarls m ! p)) \<noteq> None"
  shows "\<exists>m'. flip_twice p m = Inr m' \<and> snarls m' = snarls m \<and>
           parent m' (key_form (snarls m ! p)) = parent m (key_form (snarls m ! p)) \<and>
           children m' (key_form (snarls m ! p)) = children m (key_form (snarls m ! p)) \<and>
           index_of m' (key_form (snarls m ! p)) = index_of m (key_form (snarls m ! p))"
proof -
  from flip_rekeys[OF p] obtain m1 where m1: "flip p m = Inr m1"
    "snarls m1 = (snarls m)[p := flip_boundaries (snarls m ! p)]"
    "parent m1 = move_entry None (key_form (snarls m ! p))
                         (key_form (flip_boundaries (snarls m ! p))) (parent m)"
    "children m1 = move_entry [] (key_form (snarls m ! p))
                         (key_form (flip_boundaries (snarls m ! p))) (children m)"
    "index_of m1 = move_entry 0 (key_form (snarls m ! p))
                         (key_form (flip_boundaries (snarls m ! p))) (index_of m)"
    by blast
  have p1: "p < length (snarls m1)" using p m1(2) by simp
  have s1: "snarls m1 ! p = flip_boundaries (snarls m ! p)" using p m1(2) by simp
  from flip_rekeys[OF p1] obtain m2 where m2: "flip p m1 = Inr m2"
    "snarls m2 = (snarls m1)[p := flip_boundaries (snarls m1 ! p)]"
    "parent m2 = move_entry None (key_form (snarls m1 ! p))
                         (key_form (flip_boundaries (snarls m1 ! p))) (parent m1)"
    "children m2 = move_entry [] (key_form (snarls m1 ! p))
                         (key_form (flip_boundaries (snarls m1 ! p))) (children m1)"
    "index_of m2 = move_entry 0 (key_form (snarls m1 ! p))
                         (key_form (flip_boundaries (snarls m1 ! p))) (index_of m1)"
    by blast
  have "flip_twice p m = Inr m2" by (simp add: flip_twice_def m1(1) m2(1))
  moreover have "snarls m2 = snarls m" using p by (simp add: m2(2) m1(2))
  moreover have "parent m2 (key_form (snarls m ! p)) = parent m (key_form (snarls m ! p))"
    using ne present(1) by (auto simp: m2(3) m1(3) s1 move_entry_def)
  moreover have "children m2 (key_form (snarls m ! p)) = children m (key_form (snarls m ! p))"
    using ne present(2) by (auto simp: m2(4) m1(4) s1 move_entry_def)
  moreover have "index_of m2 (key_form (snarls m ! p)) = index_of m (key_form (snarls m ! p))"
    using ne present(3) by (auto simp: m2(5) m1(5) s1 move_entry_def)
  ultimately show ?thesis by blast
qed

section \<open>\<open>manage\<close> and the records of the store\<close>










section \<open>Chains\<close>

text \<open>
  Claim C2 (the code departs from it).  \<open>get_end\<close> reads \<open>chain.front()\<close> where the claim,
  and \<open>end_backward\<close> beside it, read \<open>chain.back()\<close>: on the chain of the two example
  children, whose last snarl ends at node 3 and is not backward, it returns the visit to
  node 2, the end of the first snarl.
\<close>

theorem get_end_reads_first_snarl:
  "get_end [example_A, example_B] = Inr (Visit 2 None False) \<and>
   end_backward [example_A, example_B] = False \<and>
   end' (last [example_A, example_B]) = Visit 3 None False"
  by code_simp

lemma get_end_singleton: "get_end [s] = Inr (end' s)"
  by (simp add: get_end_def end_backward_def)

text \<open>
  The two outcomes of \<open>next_in_chain\<close> on a visit to a managed snarl: the empty visit when
  the out side has no neighbour, no value at all when it has one.
\<close>

lemma next_in_chain_no_neighbour:
  assumes "node_id v = 0" and "manage m (snarl_of v) = Inr p"
    and "(if backward v then snarl_sharing_start m p else snarl_sharing_end m p) = Inr None"
  shows "next_in_chain m v = Inr default_Visit"
  using assms by (simp add: next_in_chain_def)

lemma next_in_chain_neighbour:
  assumes "node_id v = 0" and "manage m (snarl_of v) = Inr p"
    and "(if backward v then snarl_sharing_start m p else snarl_sharing_end m p) = Inr (Some n)"
    and "n < length (snarls m)"
  shows "next_in_chain m v = Inl No_return_value"
  using assms by (simp add: next_in_chain_def deref_def Let_def)

text \<open>
  Claim C1 (the code departs from it).  In the example store the forward visit to the
  first child is a visit to a managed snarl whose out-side neighbour is the second child;
  \<open>next_in_chain\<close> builds the visit the claim describes and then ends without a
  \<open>return\<close> statement, so the call yields no visit.
\<close>

theorem next_in_chain_falls_off_the_end:
  "manage (SnarlManager_init example_store) example_A = Inr 1 \<and>
   snarl_sharing_end (SnarlManager_init example_store) 1 = Inr (Some 2) \<and>
   next_in_chain (SnarlManager_init example_store) (Visit 0 (Some example_A) False)
     = Inl No_return_value"
  by code_simp

text \<open>
  Claim C6 (the code departs from it).  For the same visit, whose out-side neighbour
  exists, \<open>prev_in_chain(next_in_chain(v))\<close> has no value to compare with \<open>v\<close>: the inner
  call ends without returning.
\<close>

theorem next_then_prev_has_no_value:
  "snarl_sharing_end (SnarlManager_init example_store) 1 = Inr (Some 2) \<and>
   next_then_prev (SnarlManager_init example_store) (Visit 0 (Some example_A) False)
     = Inl No_return_value"
  by code_simp

text \<open>
  Claim C5 (the code departs from it).  The top-level snarl of the example store has the
  two children at positions 1 and 2; \<open>chains_of\<close> walks right from the first child, the
  call of \<open>next_in_chain\<close> ends without returning, and no list of chains comes back.
\<close>

theorem chains_of_has_no_value:
  "children_of (SnarlManager_init example_store) (Some 0) = Inr [1, 2] \<and>
   chains_of (SnarlManager_init example_store) (Some 0) = Some (Inl No_return_value)"
  by code_simp

text \<open>
  Where no child has a neighbour the walks end at once and every child is a chain of its
  own: the store that holds only the top-level snarl has the single chain of that snarl.
\<close>

lemma chains_of_single_top_level:
  "chains_of (SnarlManager_init [example_parent]) None = Some (Inr [[0]])"
  by code_simp


section \<open>Content enumeration\<close>

text \<open>
  Modelled from the spec: the backing graph \<open>VG\<close> and its \<open>Edge\<close> records are declared
  outside the sources; the contract is \<open>get_node(id)\<close> and \<open>edges_of_node(node, out)\<close>, with
  edges exposing \<open>from\<close>, \<open>to\<close>, \<open>from_start\<close> and \<open>to_end\<close>.  A \<open>Node*\<close> is the
  identifier of the node, an \<open>Edge*\<close> the edge record; the graph has a finite list of nodes,
  \<open>get_node\<close> fails on any other identifier, and the edges a node reports are any list.
\<close>

record Edge =
  edge_from :: int
  edge_to :: int
  from_start :: bool
  to_end :: bool

record VG =
  node_ids :: "int list"
  edges_of :: "int \<Rightarrow> Edge list"

definition get_node :: "VG \<Rightarrow> int \<Rightarrow> error + int" where
  "get_node g i = (if i \<in> set (node_ids g) then Inr i else Inl No_such_node)"

definition edges_of_node :: "VG \<Rightarrow> int \<Rightarrow> Edge list" where
  "edges_of_node g node = edges_of g node"

text \<open>A range-based \<open>for\<close> loop whose body may throw: the first failure ends the loop.\<close>

fun for_each :: "('a \<Rightarrow> 's \<Rightarrow> error + 's) \<Rightarrow> 'a list \<Rightarrow> 's \<Rightarrow> error + 's" where
  "for_each body [] s = Inr s"
| "for_each body (x # xs) s =
     (case body x s of Inl e \<Rightarrow> Inl e | Inr s' \<Rightarrow> for_each body xs s')"

text \<open>
  The state that the loops of \<open>shallow_contents\<close> and \<open>deep_contents\<close> share: the
  stack (its top is the head of the list), \<open>already_stacked\<close>, and the edges of
  \<open>to_return\<close>.  \<open>stack_up\<close> is the recurring block that looks a node up and pushes it
  unless it was stacked before.
\<close>

type_synonym dfs_state = "int list \<times> int set \<times> Edge set"

definition stack_up :: "VG \<Rightarrow> int \<Rightarrow> dfs_state \<Rightarrow> error + dfs_state" where
  "stack_up g i st =
    (case st of (stack, already_stacked, edges) \<Rightarrow>
      (case get_node g i of
         Inl e \<Rightarrow> Inl e
       | Inr node \<Rightarrow>
           Inr (if node \<in> already_stacked then (stack, already_stacked, edges)
                else (node # stack, insert node already_stacked, edges))))"

definition admit_edge :: "Edge \<Rightarrow> dfs_state \<Rightarrow> dfs_state" where
  "admit_edge edge st = (case st of (stack, already_stacked, edges) \<Rightarrow>
     (stack, already_stacked, insert edge edges))"

text \<open>The bodies of the two loops over the edges of the start node and of the end node.\<close>

definition enter_from_start :: "VG \<Rightarrow> Snarl \<Rightarrow> Edge \<Rightarrow> dfs_state \<Rightarrow> error + dfs_state" where
  "enter_from_start g sn edge st =
    (if edge_from edge = node_id (start sn) \<and> from_start edge = backward (start sn) then
       (case stack_up g (edge_to edge) st of Inl e \<Rightarrow> Inl e | Inr st' \<Rightarrow> Inr (admit_edge edge st'))
     else if edge_to edge = node_id (start sn) \<and> to_end edge \<noteq> backward (start sn) then
       (case stack_up g (edge_from edge) st of Inl e \<Rightarrow> Inl e | Inr st' \<Rightarrow> Inr (admit_edge edge st'))
     else Inr st)"

definition enter_from_end :: "VG \<Rightarrow> Snarl \<Rightarrow> Edge \<Rightarrow> dfs_state \<Rightarrow> error + dfs_state" where
  "enter_from_end g sn edge st =
    (if edge_from edge = node_id (end' sn) \<and> from_start edge \<noteq> backward (end' sn) then
       (case stack_up g (edge_to edge) st of Inl e \<Rightarrow> Inl e | Inr st' \<Rightarrow> Inr (admit_edge edge st'))
     else if edge_to edge = node_id (end' sn) \<and> to_end edge = backward (end' sn) then
       (case stack_up g (edge_from edge) st of Inl e \<Rightarrow> Inl e | Inr st' \<Rightarrow> Inr (admit_edge edge st'))
     else Inr st)"

text \<open>
  One turn of the \<open>while\<close> loop of \<open>shallow_contents\<close> after the node is popped and
  recorded: the opposite boundary of a child snarl entered at the node is stacked, then the
  edges of the node are examined.
\<close>

definition stack_up_opposite ::
  "SnarlManager \<Rightarrow> VG \<Rightarrow> int \<Rightarrow> bool \<Rightarrow> nat option \<Rightarrow> dfs_state \<Rightarrow> error + dfs_state" where
  "stack_up_opposite m g node at_end child st =
    (case child of
       None \<Rightarrow> Inr st
     | Some c \<Rightarrow>
        (case deref m c of
           Inl e \<Rightarrow> Inl e
         | Inr cs \<Rightarrow>
            stack_up g
              (if at_end
               then (if node_id (end' cs) = node then node_id (start cs) else node_id (end' cs))
               else (if node_id (start cs) = node then node_id (end' cs) else node_id (start cs)))
              st))"

definition shallow_edge ::
  "VG \<Rightarrow> int \<Rightarrow> nat option \<Rightarrow> nat option \<Rightarrow> Edge \<Rightarrow> dfs_state \<Rightarrow> error + dfs_state" where
  "shallow_edge g node forward_snarl backward_snarl edge st =
    (if edge_from edge = node then
       (if (from_start edge \<and> backward_snarl = None) \<or>
           (\<not> from_start edge \<and> forward_snarl = None)
        then stack_up g (edge_to edge) (admit_edge edge st)
        else Inr st)
     else
       (if (to_end edge \<and> forward_snarl = None) \<or>
           (\<not> to_end edge \<and> backward_snarl = None)
        then stack_up g (edge_from edge) (admit_edge edge st)
        else Inr st))"

definition shallow_visit :: "SnarlManager \<Rightarrow> VG \<Rightarrow> int \<Rightarrow> dfs_state \<Rightarrow> error + dfs_state" where
  "shallow_visit m g node st =
    (let forward_snarl = into_which_snarl m node False;
         backward_snarl = into_which_snarl m node True
     in case stack_up_opposite m g node False forward_snarl st of
          Inl e \<Rightarrow> Inl e
        | Inr st1 \<Rightarrow>
           (case stack_up_opposite m g node True backward_snarl st1 of
              Inl e \<Rightarrow> Inl e
            | Inr st2 \<Rightarrow>
                for_each (shallow_edge g node forward_snarl backward_snarl)
                  (edges_of_node g node) st2))"

text \<open>The same for \<open>deep_contents\<close>, which follows every edge.\<close>

definition deep_edge :: "VG \<Rightarrow> int \<Rightarrow> Edge \<Rightarrow> dfs_state \<Rightarrow> error + dfs_state" where
  "deep_edge g node edge st =
     stack_up g (if edge_from edge = node then edge_to edge else edge_from edge)
       (admit_edge edge st)"

definition deep_visit :: "VG \<Rightarrow> int \<Rightarrow> dfs_state \<Rightarrow> error + dfs_state" where
  "deep_visit g node st = for_each (deep_edge g node) (edges_of_node g node) st"

text \<open>
  The \<open>while\<close> loops end: every push marks a node of the graph that was not marked
  before, so twice the number of unmarked nodes plus the height of the stack falls with
  every turn.
\<close>

definition unstacked :: "VG \<Rightarrow> dfs_state \<Rightarrow> nat" where
  "unstacked g st = (case st of (stack, already_stacked, edges) \<Rightarrow>
     2 * card (set (node_ids g) - already_stacked) + length stack)"

lemma stack_up_unstacked:
  assumes "stack_up g i st = Inr st'"
  shows "unstacked g st' \<le> unstacked g st"
proof -
  obtain stack stacked edges where st: "st = (stack, stacked, edges)" by (cases st)
  show ?thesis
  proof (cases "i \<in> set (node_ids g) \<and> i \<notin> stacked")
    case True
    then have "i \<in> set (node_ids g) - stacked" by simp
    then have "card (set (node_ids g) - insert i stacked) < card (set (node_ids g) - stacked)"
      by (metis Diff_insert List.finite_set card_Diff1_less finite_Diff)
    moreover have "st' = (i # stack, insert i stacked, edges)"
      using assms True by (simp add: stack_up_def st get_node_def)
    ultimately show ?thesis by (simp add: unstacked_def st)
  next
    case False
    then have "st' = st" using assms
      by (auto simp: stack_up_def st get_node_def split: if_splits)
    then show ?thesis by simp
  qed
qed

lemma admit_edge_unstacked [simp]: "unstacked g (admit_edge e st) = unstacked g st"
  by (cases st) (simp add: admit_edge_def unstacked_def)

lemma for_each_unstacked:
  assumes "\<And>x s s'. body x s = Inr s' \<Longrightarrow> unstacked g s' \<le> unstacked g s"
    and "for_each body xs st = Inr st'"
  shows "unstacked g st' \<le> unstacked g st"
  using assms(2)
proof (induction xs arbitrary: st)
  case Nil
  then show ?case by simp
next
  case (Cons x xs)
  from Cons.prems obtain s1 where s1: "body x st = Inr s1" "for_each body xs s1 = Inr st'"
    by (auto split: sum.splits)
  from Cons.IH[OF s1(2)] assms(1)[OF s1(1)] show ?case by simp
qed

lemma shallow_edge_unstacked:
  "shallow_edge g node f b e s = Inr s' \<Longrightarrow> unstacked g s' \<le> unstacked g s"
  by (auto simp: shallow_edge_def split: if_splits dest!: stack_up_unstacked)

lemma stack_up_opposite_unstacked:
  "stack_up_opposite m g node at_end c s = Inr s' \<Longrightarrow> unstacked g s' \<le> unstacked g s"
  by (auto simp: stack_up_opposite_def split: option.splits sum.splits dest!: stack_up_unstacked)

lemma shallow_visit_unstacked:
  assumes "shallow_visit m g node st = Inr st'"
  shows "unstacked g st' \<le> unstacked g st"
proof -
  from assms obtain s1 s2 where
    s1: "stack_up_opposite m g node False (into_which_snarl m node False) st = Inr s1" and
    s2: "stack_up_opposite m g node True (into_which_snarl m node True) s1 = Inr s2" and
    s3: "for_each (shallow_edge g node (into_which_snarl m node False) (into_which_snarl m node True))
           (edges_of_node g node) s2 = Inr st'"
    by (auto simp: shallow_visit_def Let_def split: sum.splits)
  have "unstacked g st' \<le> unstacked g s2"
    by (rule for_each_unstacked[OF _ s3]) (rule shallow_edge_unstacked)
  with stack_up_opposite_unstacked[OF s1] stack_up_opposite_unstacked[OF s2]
  show ?thesis by simp
qed

lemma deep_visit_unstacked:
  assumes "deep_visit g node st = Inr st'"
  shows "unstacked g st' \<le> unstacked g st"
proof (rule for_each_unstacked[OF _ assms[unfolded deep_visit_def]])
  fix x s s' assume "deep_edge g node x s = Inr s'"
  then show "unstacked g s' \<le> unstacked g s"
    by (auto simp: deep_edge_def dest!: stack_up_unstacked)
qed

function shallow_dfs ::
  "SnarlManager \<Rightarrow> VG \<Rightarrow> int set \<Rightarrow> dfs_state \<Rightarrow> error + int set \<times> Edge set" where
  "shallow_dfs m g nodes (stack, already_stacked, edges) =
    (case stack of
       [] \<Rightarrow> Inr (nodes, edges)
     | node # rest \<Rightarrow>
        (case shallow_visit m g node (rest, already_stacked, edges) of
           Inl e \<Rightarrow> Inl e
         | Inr st' \<Rightarrow> shallow_dfs m g (insert node nodes) st'))"
  by pat_completeness auto
termination
proof (relation "measure (\<lambda>(m, g, nodes, st). unstacked g st)")
  show "wf (measure (\<lambda>(m, g, nodes, st). unstacked g st))" by simp
next
  fix m g nodes stack already_stacked edges node rest st'
  assume "stack = node # rest"
    and v: "shallow_visit m g node (rest, already_stacked, edges) = Inr st'"
  from shallow_visit_unstacked[OF v]
  have "unstacked g st' < unstacked g (node # rest, already_stacked, edges)"
    by (simp add: unstacked_def)
  then show "((m, g, insert node nodes, st'), (m, g, nodes, stack, already_stacked, edges))
      \<in> measure (\<lambda>(m, g, nodes, st). unstacked g st)"
    using \<open>stack = node # rest\<close> by simp
qed

function deep_dfs :: "VG \<Rightarrow> int set \<Rightarrow> dfs_state \<Rightarrow> error + int set \<times> Edge set" where
  "deep_dfs g nodes (stack, already_stacked, edges) =
    (case stack of
       [] \<Rightarrow> Inr (nodes, edges)
     | node # rest \<Rightarrow>
        (case deep_visit g node (rest, already_stacked, edges) of
           Inl e \<Rightarrow> Inl e
         | Inr st' \<Rightarrow> deep_dfs g (insert node nodes) st'))"
  by pat_completeness auto
termination
proof (relation "measure (\<lambda>(g, nodes, st). unstacked g st)")
  show "wf (measure (\<lambda>(g, nodes, st). unstacked g st))" by simp
next
  fix g nodes stack already_stacked edges node rest st'
  assume "stack = node # rest"
    and v: "deep_visit g node (rest, already_stacked, edges) = Inr st'"
  from deep_visit_unstacked[OF v]
  have "unstacked g st' < unstacked g (node # rest, already_stacked, edges)"
    by (simp add: unstacked_def)
  then show "((g, insert node nodes, st'), (g, nodes, stack, already_stacked, edges))
      \<in> measure (\<lambda>(g, nodes, st). unstacked g st)"
    using \<open>stack = node # rest\<close> by simp
qed


text \<open>
  The part of both functions before the \<open>while\<close> loop (it is the same text in both), and
  the functions themselves.  The snarl is only read through the pointer, so it is passed as
  a record.
\<close>

definition enter_boundaries :: "VG \<Rightarrow> Snarl \<Rightarrow> error + dfs_state" where
  "enter_boundaries g sn =
    (case get_node g (node_id (start sn)) of
       Inl e \<Rightarrow> Inl e
     | Inr start_node \<Rightarrow>
        (case get_node g (node_id (end' sn)) of
           Inl e \<Rightarrow> Inl e
         | Inr end_node \<Rightarrow>
            (case for_each (enter_from_start g sn) (edges_of_node g start_node)
                    ([], {start_node, end_node}, {}) of
               Inl e \<Rightarrow> Inl e
             | Inr st \<Rightarrow> for_each (enter_from_end g sn) (edges_of_node g end_node) st)))"

definition boundary_nodes :: "Snarl \<Rightarrow> bool \<Rightarrow> int set" where
  "boundary_nodes sn include_boundary_nodes =
     (if include_boundary_nodes then {node_id (start sn), node_id (end' sn)} else {})"

definition shallow_contents ::
  "SnarlManager \<Rightarrow> Snarl \<Rightarrow> VG \<Rightarrow> bool \<Rightarrow> error + int set \<times> Edge set" where
  "shallow_contents m sn g include_boundary_nodes =
    (case enter_boundaries g sn of
       Inl e \<Rightarrow> Inl e
     | Inr st \<Rightarrow> shallow_dfs m g (boundary_nodes sn include_boundary_nodes) st)"

definition deep_contents ::
  "SnarlManager \<Rightarrow> Snarl \<Rightarrow> VG \<Rightarrow> bool \<Rightarrow> error + int set \<times> Edge set" where
  "deep_contents m sn g include_boundary_nodes =
    (case enter_boundaries g sn of
       Inl e \<Rightarrow> Inl e
     | Inr st \<Rightarrow> deep_dfs g (boundary_nodes sn include_boundary_nodes) st)"

text \<open>Nodes that are in \<open>to_return.first\<close> when the loop starts are still there at its end.\<close>

definition with_nodes :: "int set \<Rightarrow> error + int set \<times> Edge set \<Rightarrow> error + int set \<times> Edge set" where
  "with_nodes extra r =
     (case r of Inl e \<Rightarrow> Inl e | Inr (nodes, edges) \<Rightarrow> Inr (nodes \<union> extra, edges))"

lemma shallow_dfs_more_nodes:
  "shallow_dfs m g (nodes \<union> extra) st = with_nodes extra (shallow_dfs m g nodes st)"
proof (induction m g nodes st rule: shallow_dfs.induct)
  case (1 m g nodes stack already_stacked edges)
  show ?case
  proof (cases stack)
    case Nil
    then show ?thesis by (simp add: with_nodes_def)
  next
    case (Cons node rest)
    show ?thesis
    proof (cases "shallow_visit m g node (rest, already_stacked, edges)")
      case (Inl e)
      with Cons show ?thesis by (simp add: with_nodes_def)
    next
      case (Inr st')
      from "1.IH"[OF Cons Inr] Cons Inr show ?thesis by simp
    qed
  qed
qed

lemma deep_dfs_more_nodes:
  "deep_dfs g (nodes \<union> extra) st = with_nodes extra (deep_dfs g nodes st)"
proof (induction g nodes st rule: deep_dfs.induct)
  case (1 g nodes stack already_stacked edges)
  show ?case
  proof (cases stack)
    case Nil
    then show ?thesis by (simp add: with_nodes_def)
  next
    case (Cons node rest)
    show ?thesis
    proof (cases "deep_visit g node (rest, already_stacked, edges)")
      case (Inl e)
      with Cons show ?thesis by (simp add: with_nodes_def)
    next
      case (Inr st')
      from "1.IH"[OF Cons Inr] Cons Inr show ?thesis by simp
    qed
  qed
qed

definition example_graph :: VG where
  "example_graph =
     \<lparr>node_ids = [0, 1, 2, 3, 4, 5],
      edges_of = (\<lambda>n. filter (\<lambda>e. edge_from e = n \<or> edge_to e = n)
        [\<lparr>edge_from = 0, edge_to = 1, from_start = False, to_end = False\<rparr>,
         \<lparr>edge_from = 1, edge_to = 2, from_start = False, to_end = False\<rparr>,
         \<lparr>edge_from = 1, edge_to = 5, from_start = False, to_end = False\<rparr>,
         \<lparr>edge_from = 5, edge_to = 2, from_start = False, to_end = False\<rparr>,
         \<lparr>edge_from = 2, edge_to = 3, from_start = False, to_end = False\<rparr>,
         \<lparr>edge_from = 3, edge_to = 4, from_start = False, to_end = False\<rparr>])\<rparr>"

text \<open>
  Claim C8.  For every manager, snarl and graph, \<open>shallow_contents\<close> and
  \<open>deep_contents\<close> called with \<open>include_boundary_nodes = true\<close> fail exactly when the
  call with \<open>false\<close> fails, with the same error; otherwise both return, with the same
  edge set, and the node set of the first is the node set of the second plus the start
  node and the end node of the snarl.
\<close>

theorem include_boundary_adds_boundary_nodes:
  "shallow_contents m sn g True =
     (case shallow_contents m sn g False of
        Inl e \<Rightarrow> Inl e
      | Inr (nodes, edges) \<Rightarrow> Inr (nodes \<union> {node_id (start sn), node_id (end' sn)}, edges)) \<and>
   deep_contents m sn g True =
     (case deep_contents m sn g False of
        Inl e \<Rightarrow> Inl e
      | Inr (nodes, edges) \<Rightarrow> Inr (nodes \<union> {node_id (start sn), node_id (end' sn)}, edges))"
proof
  show "shallow_contents m sn g True =
     (case shallow_contents m sn g False of
        Inl e \<Rightarrow> Inl e
      | Inr (nodes, edges) \<Rightarrow> Inr (nodes \<union> {node_id (start sn), node_id (end' sn)}, edges))"
    using shallow_dfs_more_nodes[of m g "{}" "{node_id (start sn), node_id (end' sn)}"]
    by (simp add: shallow_contents_def boundary_nodes_def with_nodes_def split: sum.splits)
  show "deep_contents m sn g True =
     (case deep_contents m sn g False of
        Inl e \<Rightarrow> Inl e
      | Inr (nodes, edges) \<Rightarrow> Inr (nodes \<union> {node_id (start sn), node_id (end' sn)}, edges))"
    using deep_dfs_more_nodes[of g "{}" "{node_id (start sn), node_id (end' sn)}"]
    by (simp add: deep_contents_def boundary_nodes_def with_nodes_def split: sum.splits)
qed

theorem include_boundary_adds_boundary_nodes_witness:
  "shallow_contents (SnarlManager_init example_store) example_parent example_graph True =
     Inr ({1, 2, 3} \<union> {0, 4},
          {\<lparr>edge_from = 0, edge_to = 1, from_start = False, to_end = False\<rparr>,
           \<lparr>edge_from = 3, edge_to = 4, from_start = False, to_end = False\<rparr>}) \<and>
   map_sum id fst
     (deep_contents (SnarlManager_init example_store) example_parent example_graph True)
     = Inr ({1, 2, 3, 5} \<union> {0, 4})"
proof -
  have s: "shallow_contents (SnarlManager_init example_store) example_parent example_graph False =
     Inr ({1, 2, 3},
          {\<lparr>edge_from = 0, edge_to = 1, from_start = False, to_end = False\<rparr>,
           \<lparr>edge_from = 3, edge_to = 4, from_start = False, to_end = False\<rparr>})"
    by code_simp
  have d: "map_sum id fst
     (deep_contents (SnarlManager_init example_store) example_parent example_graph False)
     = Inr {1, 2, 3, 5}"
    by code_simp
  then obtain es where d': "deep_contents (SnarlManager_init example_store) example_parent
     example_graph False = Inr ({1, 2, 3, 5}, es)"
    by (cases "deep_contents (SnarlManager_init example_store) example_parent example_graph False")
       auto
  have b: "{node_id (start example_parent), node_id (end' example_parent)} = {0, 4}"
    by (simp add: example_parent_def)
  note t = include_boundary_adds_boundary_nodes
         [of "SnarlManager_init example_store" example_parent example_graph]
  from t have "shallow_contents (SnarlManager_init example_store) example_parent example_graph True =
     Inr ({1, 2, 3} \<union> {0, 4},
          {\<lparr>edge_from = 0, edge_to = 1, from_start = False, to_end = False\<rparr>,
           \<lparr>edge_from = 3, edge_to = 4, from_start = False, to_end = False\<rparr>})"
    by (simp only: s b sum.case prod.case)
  moreover from t have "deep_contents (SnarlManager_init example_store) example_parent
     example_graph True = Inr ({1, 2, 3, 5} \<union> {0, 4}, es)"
    by (simp only: d' b sum.case prod.case)
  ultimately show ?thesis by (simp only: map_sum.simps fst_conv id_apply simp_thms)
qed


section \<open>The net graph: \<open>follow_edges\<close>\<close>

text \<open>
  Modelled from the spec: the backing \<open>HandleGraph\<close> is an interface declared outside the
  sources.  Its handles are an arbitrary type \<open>'h\<close>; \<open>get_handle\<close>, \<open>get_id\<close> and
  \<open>flip\<close> (here \<open>flip_handle\<close>) are any functions, and \<open>follow_edges(handle, go_left, iteratee)\<close> calls
  the iteratee on each adjacent handle in turn, stops at the first call that returns false,
  and returns false exactly when it stopped early.  An iteratee is a function from the
  handle and the state it closes over to its answer and the new state.
\<close>

record 'h HandleGraph =
  get_handle :: "int \<Rightarrow> bool \<Rightarrow> 'h"
  get_id :: "'h \<Rightarrow> int"
  flip_handle :: "'h \<Rightarrow> 'h"
  adjacent :: "'h \<Rightarrow> bool \<Rightarrow> 'h list"

fun iterate_handles :: "('h \<Rightarrow> 's \<Rightarrow> bool \<times> 's) \<Rightarrow> 'h list \<Rightarrow> 's \<Rightarrow> bool \<times> 's" where
  "iterate_handles iteratee [] s = (True, s)"
| "iterate_handles iteratee (h # hs) s =
     (case iteratee h s of (keep_going, s') \<Rightarrow>
        if keep_going then iterate_handles iteratee hs s' else (False, s'))"

definition graph_follow_edges ::
  "'h HandleGraph \<Rightarrow> 'h \<Rightarrow> bool \<Rightarrow> ('h \<Rightarrow> 's \<Rightarrow> bool \<times> 's) \<Rightarrow> 's \<Rightarrow> bool \<times> 's" where
  "graph_follow_edges g handle go_left iteratee s =
     iterate_handles iteratee (adjacent g handle go_left) s"

text \<open>The members of \<open>NetGraph\<close> that \<open>follow_edges\<close> reads.\<close>

record 'h NetGraph =
  graph :: "'h HandleGraph"
  net_start :: 'h
  net_end :: 'h
  use_internal_connectivity :: bool
  unary_boundaries :: "'h set"
  chain_ends_by_start :: "'h \<rightharpoonup> 'h"
  chain_end_rewrites :: "'h \<rightharpoonup> 'h"
  connectivity :: "int \<rightharpoonup> bool \<times> bool \<times> bool"

text \<open>
  The two lambdas of \<open>NetGraph::follow_edges\<close>.  Both start by warping a visit to the end
  of a chain to its start (\<open>rewrite_chain_end\<close>) and both end by calling the iteratee
  unless \<open>seen\<close> holds the handle (\<open>emit_unseen\<close>); \<open>seen\<close> is captured by reference, so
  it is part of the state the lambdas pass on.
\<close>

definition rewrite_chain_end :: "'h NetGraph \<Rightarrow> 'h \<Rightarrow> 'h" where
  "rewrite_chain_end ng other =
    (case chain_end_rewrites ng other of
       Some head \<Rightarrow> head
     | None \<Rightarrow>
        (case chain_end_rewrites ng (flip_handle (graph ng) other) of
           Some head \<Rightarrow> flip_handle (graph ng) head
         | None \<Rightarrow> other))"

definition emit_unseen ::
  "('h \<Rightarrow> 's \<Rightarrow> bool \<times> 's) \<Rightarrow> 'h \<Rightarrow> 'h set \<times> 's \<Rightarrow> bool \<times> 'h set \<times> 's" where
  "emit_unseen iteratee real_handle st =
    (case st of (seen, s) \<Rightarrow>
       if real_handle \<notin> seen
       then (case iteratee real_handle s of (r, s') \<Rightarrow> (r, insert real_handle seen, s'))
       else (True, seen, s))"

definition handle_edge ::
  "'h NetGraph \<Rightarrow> ('h \<Rightarrow> 's \<Rightarrow> bool \<times> 's) \<Rightarrow> 'h \<Rightarrow> 'h set \<times> 's \<Rightarrow> bool \<times> 'h set \<times> 's" where
  "handle_edge ng iteratee other = emit_unseen iteratee (rewrite_chain_end ng other)"

definition flip_and_handle_edge ::
  "'h NetGraph \<Rightarrow> ('h \<Rightarrow> 's \<Rightarrow> bool \<times> 's) \<Rightarrow> 'h \<Rightarrow> 'h set \<times> 's \<Rightarrow> bool \<times> 'h set \<times> 's" where
  "flip_and_handle_edge ng iteratee other =
     emit_unseen iteratee (flip_handle (graph ng) (rewrite_chain_end ng other))"

text \<open>
  \<open>if (c) { if (!graph->follow_edges(...)) return false; }\<close> is \<open>when_connected c\<close>
  of the call, two such statements in a row are joined by \<open>and_then\<close>, and the final
  \<open>return\<close> drops the local \<open>seen\<close>.  \<open>at\<close> on \<open>connectivity\<close> throws when the node
  identifier is not a key.
\<close>

definition when_connected :: "bool \<Rightarrow> ('t \<Rightarrow> bool \<times> 't) \<Rightarrow> 't \<Rightarrow> bool \<times> 't" where
  "when_connected c look st = (if c then look st else (True, st))"

definition and_then :: "('t \<Rightarrow> bool \<times> 't) \<Rightarrow> ('t \<Rightarrow> bool \<times> 't) \<Rightarrow> 't \<Rightarrow> bool \<times> 't" where
  "and_then look1 look2 st =
     (case look1 st of (r, st') \<Rightarrow> if r then look2 st' else (False, st'))"

definition returning :: "bool \<times> 'h set \<times> 's \<Rightarrow> bool \<times> 's" where
  "returning r = (case r of (b, seen, s) \<Rightarrow> (b, s))"

definition follow_edges ::
  "'h NetGraph \<Rightarrow> 'h \<Rightarrow> bool \<Rightarrow> ('h \<Rightarrow> 's \<Rightarrow> bool \<times> 's) \<Rightarrow> 's \<Rightarrow> error + bool \<times> 's" where
  "follow_edges ng handle go_left iteratee s =
    (let g = graph ng;
         seen = {};
         to_head = handle_edge ng iteratee;
         to_flipped_head = flip_and_handle_edge ng iteratee
     in
     if (handle = net_end ng \<and> \<not> go_left) \<or> (handle = flip_handle g (net_end ng) \<and> go_left) \<or>
        (handle = flip_handle g (net_start ng) \<and> \<not> go_left) \<or> (handle = net_start ng \<and> go_left)
     then Inr (True, s)
     else if chain_ends_by_start ng handle \<noteq> None \<or>
             chain_ends_by_start ng (flip_handle g handle) \<noteq> None then
       (case connectivity ng (get_id g handle) of
          None \<Rightarrow> Inl Out_of_range
        | Some (connected_start_start, connected_end_end, connected_start_end) \<Rightarrow>
           (case chain_ends_by_start ng handle of
              Some chain_end \<Rightarrow>
                if go_left then
                  Inr (returning
                    (and_then
                      (when_connected connected_end_end
                         (graph_follow_edges g chain_end False to_flipped_head))
                      (when_connected connected_start_end
                         (graph_follow_edges g handle True to_head))
                      (seen, s)))
                else
                  Inr (returning
                    (and_then
                      (when_connected connected_start_start
                         (graph_follow_edges g handle True to_flipped_head))
                      (when_connected connected_start_end
                         (graph_follow_edges g chain_end False to_head))
                      (seen, s)))
            | None \<Rightarrow>
               (case chain_ends_by_start ng (flip_handle g handle) of
                  None \<Rightarrow> Inl Out_of_range
                | Some chain_end \<Rightarrow>
                    if go_left then
                      Inr (returning
                        (and_then
                          (when_connected connected_start_start
                             (graph_follow_edges g handle False to_flipped_head))
                          (when_connected connected_start_end
                             (graph_follow_edges g chain_end False to_flipped_head))
                          (seen, s)))
                    else
                      Inr (returning
                        (and_then
                          (when_connected connected_end_end
                             (graph_follow_edges g chain_end False to_head))
                          (when_connected connected_start_end
                             (graph_follow_edges g handle False to_head))
                          (seen, s))))))
     else if handle \<in> unary_boundaries ng \<or> flip_handle g handle \<in> unary_boundaries ng then
       (case connectivity ng (get_id g handle) of
          None \<Rightarrow> Inl Out_of_range
        | Some (connected_start_start, connected_end_end, connected_start_end) \<Rightarrow>
           if handle \<in> unary_boundaries ng then
             (if go_left then
                Inr (returning
                  (when_connected (\<not> use_internal_connectivity ng)
                     (graph_follow_edges g handle True to_head) (seen, s)))
              else
                Inr (returning
                  (when_connected
                     (connected_start_start \<or> connected_end_end \<or> connected_start_end)
                     (graph_follow_edges g handle True to_flipped_head) (seen, s))))
           else
             (if go_left then
                Inr (returning
                  (when_connected
                     (connected_start_start \<or> connected_end_end \<or> connected_start_end)
                     (graph_follow_edges g handle False to_head) (seen, s)))
              else
                Inr (returning
                  (when_connected (\<not> use_internal_connectivity ng)
                     (graph_follow_edges g handle False to_flipped_head) (seen, s)))))
     else Inr (returning (graph_follow_edges g handle go_left to_head (seen, s))))"

text \<open>
  An iteratee that also keeps the list of its calls, each with the handle it was given and
  the answer it gave.
\<close>

definition recording ::
  "('h \<Rightarrow> 's \<Rightarrow> bool \<times> 's) \<Rightarrow> 'h \<Rightarrow> 's \<times> ('h \<times> bool) list \<Rightarrow> bool \<times> 's \<times> ('h \<times> bool) list" where
  "recording iteratee h st =
    (case st of (s, calls) \<Rightarrow>
       (case iteratee h s of (r, s') \<Rightarrow> (r, s', calls @ [(h, r)])))"

subsection \<open>The constructor of the net graph\<close>

text \<open>
  \<open>ChainIterator\<close>: a position in the chain (\<open>chain.end()\<close> is the length of the chain)
  with the direction, the orientation of the snarl at the position and the reverse-end
  mark.  The fields are prefixed with \<open>it_\<close>.  \<open>increment\<close> is \<open>operator++\<close>;
  dereferencing a position outside the chain is \<open>Invalid_pointer\<close>.
\<close>

record ChainIterator =
  it_go_left :: bool
  it_backward :: bool
  it_pos :: nat
  it_chain_start :: nat
  it_chain_end :: nat
  it_is_rend :: bool

definition chain_begin :: "Chain \<Rightarrow> ChainIterator" where
  "chain_begin chain =
     \<lparr>it_go_left = False, it_backward = start_backward chain, it_pos = 0,
      it_chain_start = 0, it_chain_end = length chain, it_is_rend = False\<rparr>"

definition chain_end :: "Chain \<Rightarrow> ChainIterator" where
  "chain_end chain =
     \<lparr>it_go_left = False, it_backward = False, it_pos = length chain,
      it_chain_start = 0, it_chain_end = length chain, it_is_rend = False\<rparr>"

definition chain_rend :: "Chain \<Rightarrow> ChainIterator" where
  "chain_rend chain =
     \<lparr>it_go_left = True, it_backward = False, it_pos = 0,
      it_chain_start = 0, it_chain_end = length chain, it_is_rend = True\<rparr>"

definition chain_rbegin :: "Chain \<Rightarrow> ChainIterator" where
  "chain_rbegin chain =
     (if chain = [] then chain_rend chain
      else \<lparr>it_go_left = True, it_backward = end_backward chain, it_pos = length chain - 1,
            it_chain_start = 0, it_chain_end = length chain, it_is_rend = False\<rparr>)"

definition increment :: "Chain \<Rightarrow> ChainIterator \<Rightarrow> error + ChainIterator" where
  "increment chain it =
    (if \<not> it_pos it < length chain then Inl Invalid_pointer
     else
       let last_leading_node =
             (if it_go_left it \<noteq> it_backward it
              then node_id (start (chain ! it_pos it))
              else node_id (end' (chain ! it_pos it)))
       in if it_go_left it then
            (if it_pos it = it_chain_start it
             then Inr (it\<lparr>it_is_rend := True, it_backward := False\<rparr>)
             else Inr (it\<lparr>it_pos := it_pos it - 1,
                          it_backward :=
                            (node_id (end' (chain ! (it_pos it - 1))) \<noteq> last_leading_node)\<rparr>))
          else
            (if it_pos it + 1 = it_chain_end it
             then Inr (it\<lparr>it_pos := it_pos it + 1, it_backward := False\<rparr>)
             else if \<not> it_pos it + 1 < length chain then Inl Invalid_pointer
             else Inr (it\<lparr>it_pos := it_pos it + 1,
                          it_backward :=
                            (node_id (start (chain ! (it_pos it + 1))) \<noteq> last_leading_node)\<rparr>)))"

text \<open>
  The two loops of \<open>add_chain_child\<close> over the oriented snarls of the chain, from
  \<open>chain_begin\<close> to \<open>chain_end\<close> and from \<open>chain_rbegin\<close> to \<open>chain_rend\<close>.  A loop
  ends when the iterator equals the end iterator, which an iterator of the other direction
  never does, so a loop that does not end is \<open>None\<close>.  \<open>std::swap\<close> of the two
  self-reachability flags for a backward snarl is the choice of the flag that is read.
\<close>

partial_function (option) connect_from_left ::
  "Chain \<Rightarrow> ChainIterator \<Rightarrow> bool \<times> bool \<Rightarrow> (error + bool \<times> bool) option" where
  "connect_from_left chain it found =
    (case found of (connected_left_left, connected_left_right) \<Rightarrow>
      if it = chain_end chain then Some (Inr (connected_left_left, connected_left_right))
      else if \<not> it_pos it < length chain then Some (Inl Invalid_pointer)
      else
        let child = chain ! it_pos it;
            start_self = (if it_backward it then end_self_reachable child
                          else start_self_reachable child);
            connected_left_left' = (if start_self then True else connected_left_left)
        in if \<not> start_end_reachable child then Some (Inr (connected_left_left', False))
           else (case increment chain it of
                   Inl e \<Rightarrow> Some (Inl e)
                 | Inr it' \<Rightarrow>
                     connect_from_left chain it' (connected_left_left', connected_left_right)))"

partial_function (option) connect_from_right ::
  "Chain \<Rightarrow> ChainIterator \<Rightarrow> bool \<Rightarrow> (error + bool) option" where
  "connect_from_right chain it connected_right_right =
    (if it = chain_rend chain then Some (Inr connected_right_right)
     else if \<not> it_pos it < length chain then Some (Inl Invalid_pointer)
     else
       let child = chain ! it_pos it;
           end_self = (if it_backward it then start_self_reachable child
                       else end_self_reachable child)
       in if end_self then Some (Inr True)
          else if \<not> start_end_reachable child then Some (Inr connected_right_right)
          else (case increment chain it of
                  Inl e \<Rightarrow> Some (Inl e)
                | Inr it' \<Rightarrow> connect_from_right chain it' connected_right_right))"

declare connect_from_left.simps [code]
declare connect_from_right.simps [code]

text \<open>
  Modelled from the spec: \<open>graph->get_handle(visit)\<close> is declared outside the sources; it
  is the handle of the visit's node in the visit's orientation.
\<close>

definition get_handle_of :: "'h HandleGraph \<Rightarrow> Visit \<Rightarrow> 'h" where
  "get_handle_of g v = get_handle g (node_id v) (backward v)"

text \<open>
  The constructors: the four-argument one sets the bounds and leaves the indexes empty, the
  one for mixed chains then adds every chain, as a unary child when it is a single snarl of
  type \<open>UNARY\<close> and as a chain child otherwise.
\<close>

definition NetGraph_bounds :: "Visit \<Rightarrow> Visit \<Rightarrow> 'h HandleGraph \<Rightarrow> bool \<Rightarrow> 'h NetGraph" where
  "NetGraph_bounds start_visit end_visit g use_connectivity =
     \<lparr>graph = g,
      net_start = get_handle g (node_id start_visit) (backward start_visit),
      net_end = get_handle g (node_id end_visit) (backward end_visit),
      use_internal_connectivity = use_connectivity,
      unary_boundaries = {},
      chain_ends_by_start = Map.empty,
      chain_end_rewrites = Map.empty,
      connectivity = Map.empty\<rparr>"

definition add_unary_child :: "Snarl \<Rightarrow> 'h NetGraph \<Rightarrow> error + 'h NetGraph" where
  "add_unary_child unary ng =
    (let snarl_bound = get_handle (graph ng) (node_id (start unary)) (backward (start unary));
         snarl_id = node_id (start unary)
     in if node_id (end' unary) \<noteq> snarl_id then Inl Assertion_failed
        else if backward (end' unary) \<noteq> (\<not> backward (start unary)) then Inl Assertion_failed
        else
          Inr (ng\<lparr>unary_boundaries := insert snarl_bound (unary_boundaries ng),
                  connectivity := (connectivity ng)
                    (snarl_id \<mapsto>
                       (if use_internal_connectivity ng
                        then (start_self_reachable unary, end_self_reachable unary,
                              start_end_reachable unary)
                        else (False, False, False)))\<rparr>))"

definition add_chain_child :: "Chain \<Rightarrow> 'h NetGraph \<Rightarrow> (error + 'h NetGraph) option" where
  "add_chain_child chain ng =
    (case get_start chain of
       Inl e \<Rightarrow> Some (Inl e)
     | Inr chain_start \<Rightarrow>
        (case get_end chain of
           Inl e \<Rightarrow> Some (Inl e)
         | Inr chain_end_visit \<Rightarrow>
            (let g = graph ng;
                 chain_start_handle = get_handle_of g chain_start;
                 chain_end_handle = get_handle_of g chain_end_visit;
                 ng1 = ng\<lparr>chain_ends_by_start :=
                            (chain_ends_by_start ng)(chain_start_handle \<mapsto> chain_end_handle),
                          chain_end_rewrites :=
                            (chain_end_rewrites ng)
                              (flip_handle g chain_end_handle \<mapsto> flip_handle g chain_start_handle)\<rparr>
             in if use_internal_connectivity ng then
                  (case connect_from_left chain (chain_begin chain) (False, True) of
                     None \<Rightarrow> None
                   | Some (Inl e) \<Rightarrow> Some (Inl e)
                   | Some (Inr (connected_left_left, connected_left_right)) \<Rightarrow>
                      (case connect_from_right chain (chain_rbegin chain) False of
                         None \<Rightarrow> None
                       | Some (Inl e) \<Rightarrow> Some (Inl e)
                       | Some (Inr connected_right_right) \<Rightarrow>
                           Some (Inr (ng1\<lparr>connectivity := (connectivity ng1)
                             (get_id g chain_start_handle \<mapsto>
                                (connected_left_left, connected_right_right,
                                 connected_left_right))\<rparr>))))
                else
                  Some (Inr (ng1\<lparr>connectivity := (connectivity ng1)
                    (get_id g chain_start_handle \<mapsto> (False, False, True))\<rparr>)))))"

fun add_children :: "Chain list \<Rightarrow> 'h NetGraph \<Rightarrow> (error + 'h NetGraph) option" where
  "add_children [] ng = Some (Inr ng)"
| "add_children (chain # rest) ng =
    (case (if length chain = 1 \<and> snarl_type (hd chain) = UNARY
           then Some (add_unary_child (hd chain) ng)
           else add_chain_child chain ng) of
       None \<Rightarrow> None
     | Some (Inl e) \<Rightarrow> Some (Inl e)
     | Some (Inr ng') \<Rightarrow> add_children rest ng')"

definition NetGraph_of ::
  "Visit \<Rightarrow> Visit \<Rightarrow> Chain list \<Rightarrow> 'h HandleGraph \<Rightarrow> bool \<Rightarrow> (error + 'h NetGraph) option" where
  "NetGraph_of start_visit end_visit child_chains_mixed g use_connectivity =
     add_children child_chains_mixed (NetGraph_bounds start_visit end_visit g use_connectivity)"

text \<open>
  Two backing graphs on handles \<open>(node, is_reverse)\<close>.  The linear one is the path
  0 - 1 - 2 - 3 - 4; in the other one, node 4 has the nodes 3, 1 and 5 on its left.
  \<open>example_net_graph\<close> is the state in which the chain from node 1 to node 3 is
  registered with node 3 as its tail.
\<close>

definition example_linear_graph :: "(int \<times> bool) HandleGraph" where
  "example_linear_graph =
     \<lparr>get_handle = Pair,
      get_id = fst,
      flip_handle = (\<lambda>h. (fst h, \<not> snd h)),
      adjacent = (\<lambda>h go_left.
         if snd h = go_left
         then (if 0 \<le> fst h \<and> fst h < 4 then [(fst h + 1, snd h)] else [])
         else (if 0 < fst h \<and> fst h \<le> 4 then [(fst h - 1, snd h)] else []))\<rparr>"

definition example_backing_graph :: "(int \<times> bool) HandleGraph" where
  "example_backing_graph =
     \<lparr>get_handle = Pair,
      get_id = fst,
      flip_handle = (\<lambda>h. (fst h, \<not> snd h)),
      adjacent = (\<lambda>h go_left.
         if h = (4, False) \<and> go_left then [(3, False), (1, False), (5, False)]
         else if h = (1, False) \<and> go_left then [(0, False)]
         else [])\<rparr>"

definition example_net_graph :: "(int \<times> bool) NetGraph" where
  "example_net_graph =
     \<lparr>graph = example_backing_graph,
      net_start = (0, False),
      net_end = (4, False),
      use_internal_connectivity = False,
      unary_boundaries = {},
      chain_ends_by_start = [(1, False) \<mapsto> (3, False)],
      chain_end_rewrites = [(3, True) \<mapsto> (1, True)],
      connectivity = [1 \<mapsto> (False, False, True)]\<rparr>"

text \<open>
  What holds of \<open>seen\<close> and the recorded calls whenever a step of \<open>follow_edges\<close> has
  answered \<open>r\<close>: every handle called is in \<open>seen\<close>, no handle was called twice, only the
  last call can have answered false, and \<open>r\<close> tells whether any did.
\<close>

definition reported :: "bool \<Rightarrow> 'h set \<times> 's \<times> ('h \<times> bool) list \<Rightarrow> bool" where
  "reported r st =
    (case st of (seen, s, calls) \<Rightarrow>
       set (map fst calls) \<subseteq> seen \<and> distinct (map fst calls) \<and>
       list_all snd (butlast calls) \<and> r = list_all snd calls)"

definition keeps_report ::
  "('h set \<times> 's \<times> ('h \<times> bool) list \<Rightarrow> bool \<times> 'h set \<times> 's \<times> ('h \<times> bool) list) \<Rightarrow> bool" where
  "keeps_report look = (\<forall>st r st'. reported True st \<longrightarrow> look st = (r, st') \<longrightarrow> reported r st')"

lemma keeps_reportI:
  "(\<And>st r st'. reported True st \<Longrightarrow> look st = (r, st') \<Longrightarrow> reported r st') \<Longrightarrow> keeps_report look"
  unfolding keeps_report_def by blast

lemma keeps_reportD:
  "keeps_report look \<Longrightarrow> reported True st \<Longrightarrow> look st = (r, st') \<Longrightarrow> reported r st'"
  unfolding keeps_report_def by blast

lemma emit_unseen_keeps_report: "keeps_report (emit_unseen (recording iteratee) h)"
proof (rule keeps_reportI)
  fix st r st'
  assume pre: "reported True st" and run: "emit_unseen (recording iteratee) h st = (r, st')"
  obtain seen s calls where st: "st = (seen, s, calls)" by (cases st)
  show "reported r st'"
  proof (cases "h \<in> seen")
    case True
    with run st have "r = True" "st' = st" by (simp_all add: emit_unseen_def)
    with pre show ?thesis by simp
  next
    case False
    obtain b s' where it: "iteratee h s = (b, s')" by (cases "iteratee h s")
    with run st False have r: "r = b" and st': "st' = (insert h seen, s', calls @ [(h, b)])"
      by (auto simp: emit_unseen_def recording_def)
    from pre st have "set (map fst calls) \<subseteq> seen" "distinct (map fst calls)" "list_all snd calls"
      by (simp_all add: reported_def)
    with False show ?thesis
      by (auto simp: reported_def r st')
  qed
qed

lemma iterate_handles_keeps_report:
  assumes "\<And>h. keeps_report (f h)"
  shows "keeps_report (iterate_handles f hs)"
proof (rule keeps_reportI)
  fix st r st'
  assume "reported True st" and "iterate_handles f hs st = (r, st')"
  then show "reported r st'"
  proof (induction hs arbitrary: st)
    case Nil
    then show ?case by simp
  next
    case (Cons h hs)
    obtain b s1 where step: "f h st = (b, s1)" by (cases "f h st")
    from keeps_reportD[OF assms Cons.prems(1) step] have s1: "reported b s1" .
    show ?case
    proof (cases b)
      case True
      with Cons.prems(2) step have "iterate_handles f hs s1 = (r, st')" by simp
      from Cons.IH[OF _ this] s1 True show ?thesis by simp
    next
      case False
      with Cons.prems(2) step have "r = False" "st' = s1" by simp_all
      with s1 False show ?thesis by simp
    qed
  qed
qed

lemma graph_follow_edges_to_head:
  "keeps_report (graph_follow_edges g h go_left (handle_edge ng (recording iteratee)))"
  unfolding graph_follow_edges_def
  by (rule iterate_handles_keeps_report) (simp add: handle_edge_def emit_unseen_keeps_report)

lemma graph_follow_edges_to_flipped_head:
  "keeps_report (graph_follow_edges g h go_left (flip_and_handle_edge ng (recording iteratee)))"
  unfolding graph_follow_edges_def
  by (rule iterate_handles_keeps_report)
     (simp add: flip_and_handle_edge_def emit_unseen_keeps_report)

lemma when_connected_keeps_report:
  "keeps_report look \<Longrightarrow> keeps_report (when_connected c look)"
  by (auto simp: keeps_report_def when_connected_def)

lemma and_then_keeps_report:
  assumes "keeps_report look1" and "keeps_report look2"
  shows "keeps_report (and_then look1 look2)"
proof (rule keeps_reportI)
  fix st r st'
  assume pre: "reported True st" and run: "and_then look1 look2 st = (r, st')"
  obtain b s1 where step: "look1 st = (b, s1)" by (cases "look1 st")
  from keeps_reportD[OF assms(1) pre step] have s1: "reported b s1" .
  show "reported r st'"
  proof (cases b)
    case True
    with run step have "look2 s1 = (r, st')" by (simp add: and_then_def)
    from keeps_reportD[OF assms(2) _ this] s1 True show ?thesis by simp
  next
    case False
    with run step have "r = False" "st' = s1" by (simp_all add: and_then_def)
    with s1 False show ?thesis by simp
  qed
qed

lemmas keeps_report_intros =
  and_then_keeps_report when_connected_keeps_report
  graph_follow_edges_to_head graph_follow_edges_to_flipped_head

definition call_report :: "bool \<times> 's \<times> ('h \<times> bool) list \<Rightarrow> bool" where
  "call_report r =
    (case r of (b, s, calls) \<Rightarrow>
       distinct (map fst calls) \<and> list_all snd (butlast calls) \<and> b = list_all snd calls)"

lemma returning_report:
  assumes "keeps_report look"
  shows "call_report (returning (look ({}, s, [])))"
proof -
  obtain r seen s' calls where run: "look ({}, s, []) = (r, seen, s', calls)"
    by (cases "look ({}, s, [])") auto
  have "reported True ({}, s, [])" by (simp add: reported_def)
  from keeps_reportD[OF assms this run] show ?thesis
    by (simp add: run returning_def call_report_def reported_def)
qed

text \<open>
  What holds of \<open>follow_edges\<close> in every state of the net graph, for every handle,
  direction, iteratee and initial state of the iteratee: it throws only from
  \<open>connectivity.at\<close>, before any call of the iteratee, when the map has no entry for the
  node of the handle.  Otherwise it returns, and in the calls it has made no handle occurs
  twice, every call but the last answered true, and the value returned is true exactly when
  all calls answered true: a call that answers false is the last one and makes
  \<open>follow_edges\<close> return false.
\<close>

lemma follow_edges_calls_are_distinct:
  "(case follow_edges ng handle go_left (recording iteratee) (s, []) of
      Inl e \<Rightarrow> e = Out_of_range \<and> connectivity ng (get_id (graph ng) handle) = None
    | Inr (r, s', calls) \<Rightarrow>
        distinct (map fst calls) \<and> list_all snd (butlast calls) \<and> r = list_all snd calls)"
proof -
  have "case follow_edges ng handle go_left (recording iteratee) (s, []) of
      Inl e \<Rightarrow> e = Out_of_range \<and> connectivity ng (get_id (graph ng) handle) = None
    | Inr r \<Rightarrow> call_report r"
    unfolding follow_edges_def Let_def
    by (auto split: option.splits simp: call_report_def[of "(True, s, [])"]
          intro!: returning_report keeps_report_intros)
  then show ?thesis
    by (auto simp: call_report_def split: sum.splits)
qed

lemma follow_edges_calls_are_distinct_example:
  "follow_edges example_net_graph (4, False) True (recording (\<lambda>h s. (True, s))) ((), [])
     = Inr (True, (), [((1, False), True), ((5, False), True)]) \<and>
   distinct (map fst [((1, False), True), ((5 :: int, False), True)]) \<and>
   follow_edges example_net_graph (4, False) True
       (recording (\<lambda>h n. (h \<noteq> (1, False), Suc n))) (0, [])
     = Inr (False, 1, [((1, False), False)]) \<and>
   follow_edges example_net_graph (1, False) True (recording (\<lambda>h s. (True, s))) ((), [])
     = Inr (True, (), [((0, False), True)])"
proof -
  have a: "follow_edges example_net_graph (4, False) True (recording (\<lambda>h s. (True, s))) ((), [])
     = Inr (True, (), [((1, False), True), ((5, False), True)])"
    by code_simp
  have b: "follow_edges example_net_graph (4, False) True
       (recording (\<lambda>h n. (h \<noteq> (1, False), Suc n))) (0, [])
     = Inr (False, 1, [((1, False), False)])"
    by code_simp
  have c: "follow_edges example_net_graph (1, False) True (recording (\<lambda>h s. (True, s))) ((), [])
     = Inr (True, (), [((0, False), True)])"
    by code_simp
  from follow_edges_calls_are_distinct
         [of example_net_graph "(4, False)" True "\<lambda>h s. (True, s)" "()"] a
  have "distinct (map fst [((1, False), True), ((5 :: int, False), True)])"
    by (simp only: sum.case prod.case)
  with a b c show ?thesis by (simp only: simp_thms)
qed




text \<open>
  A chain of one snarl has its own end as the tail, and the rewrite is in place: going left
  from node 3 on the linear graph, the tail of the first child is reported as its head.
\<close>

lemma follow_edges_single_snarl_chain:
  "(case NetGraph_of (Visit 0 None False) (Visit 4 None False) [[example_A]]
           example_linear_graph True of
      Some (Inr ng) \<Rightarrow>
        follow_edges ng (3, False) True (recording (\<lambda>h s. (True, s))) ((), [])
          = Inr (True, (), [((1, False), True)])
    | _ \<Rightarrow> False)"
  by code_simp

end
